theory Spec2Isabelle
  imports Complex_Main "HOL-Library.AList"
begin

section \<open>FigSync monitor: Python values, exceptions and dictionaries\<close>

text \<open>
  The development embeds \<^verbatim>\<open>src/FigSync/monitor.py\<close>. Python objects that the code
  compares or formats are values of \<open>pyval\<close>; an exception is a value of \<open>error\<close>.
  A \<^verbatim>\<open>dict\<close> is an association list in insertion order whose keys are pairwise
  distinct: \<open>AList.update\<close> is \<^verbatim>\<open>d[k] = v\<close> (an existing key keeps its place, a new
  key goes last) and the list itself is \<^verbatim>\<open>d.items()\<close>.
\<close>

datatype Action = CREATE | UPDATE | DELETE

datatype pyval = PyNone | Str string | Enum Action

datatype error =
    KeyError string
  | TypeError
  | AttributeError
  | FileNotFoundError
  | NotADirectoryError
  | PermissionError
  | ReError

type_synonym datetime = int

type_synonym snapshot = "(string \<times> datetime) list"

type_synonym changes = "(string \<times> string) list"

text \<open>\<^verbatim>\<open>k in d\<close> and \<^verbatim>\<open>d[k]\<close>; the latter raises \<^verbatim>\<open>KeyError\<close> on a missing key.\<close>

definition dict_contains :: "(string \<times> 'v) list \<Rightarrow> string \<Rightarrow> bool" where
  "dict_contains d k = (map_of d k \<noteq> None)"

definition dict_get :: "(string \<times> 'v) list \<Rightarrow> string \<Rightarrow> error + 'v" where
  "dict_get d k = (case map_of d k of None \<Rightarrow> Inl (KeyError k) | Some v \<Rightarrow> Inr v)"

text \<open>\<^verbatim>\<open>action.name\<close> of an enum member, and \<^verbatim>\<open>str(x)\<close> as an f-string formats it.\<close>

fun Action_name :: "Action \<Rightarrow> string" where
  "Action_name CREATE = ''CREATE''"
| "Action_name UPDATE = ''UPDATE''"
| "Action_name DELETE = ''DELETE''"

fun py_str :: "pyval \<Rightarrow> string" where
  "py_str PyNone = ''None''"
| "py_str (Str s) = s"
| "py_str (Enum a) = ''Action.'' @ Action_name a"

fun str_nat :: "nat \<Rightarrow> string" where
  "str_nat n =
     (if n < 10 then [''0123456789'' ! n]
      else str_nat (n div 10) @ [''0123456789'' ! (n mod 10)])"

definition str_int :: "int \<Rightarrow> string" where
  "str_int i = (if i < 0 then ''-'' @ str_nat (nat (- i)) else str_nat (nat i))"

section \<open>Observer.get_changes\<close>

text \<open>
  \<^verbatim>\<open>
  changes = {}
  for file_path, update_time in old_states.items():
      if file_path not in new_states:
          changes[file_path] = "DELETE"
      if update_time < new_states[file_path]:
          changes[file_path] = "UPDATE"
  for file_path, update_time in new_states.items():
      if file_path not in old_states:
          changes[file_path] = "CREATE"
  return changes
  \<close>
  The second \<^verbatim>\<open>if\<close> of the first loop is not an \<^verbatim>\<open>elif\<close>: it looks the path up
  in \<open>new_states\<close> whether or not the path is there.
\<close>

fun get_changes_old :: "snapshot \<Rightarrow> snapshot \<Rightarrow> changes \<Rightarrow> error + changes" where
  "get_changes_old [] new_states changes = Inr changes"
| "get_changes_old ((file_path, update_time) # rest) new_states changes =
     (let changes1 =
            (if \<not> dict_contains new_states file_path
             then AList.update file_path ''DELETE'' changes else changes)
      in case dict_get new_states file_path of
           Inl e \<Rightarrow> Inl e
         | Inr new_time \<Rightarrow>
             get_changes_old rest new_states
               (if update_time < new_time
                then AList.update file_path ''UPDATE'' changes1 else changes1))"

fun get_changes_new :: "snapshot \<Rightarrow> snapshot \<Rightarrow> changes \<Rightarrow> changes" where
  "get_changes_new [] old_states changes = changes"
| "get_changes_new ((file_path, update_time) # rest) old_states changes =
     get_changes_new rest old_states
       (if \<not> dict_contains old_states file_path
        then AList.update file_path ''CREATE'' changes else changes)"

definition get_changes :: "snapshot \<Rightarrow> snapshot \<Rightarrow> error + changes" where
  "get_changes old_states new_states =
     (case get_changes_old old_states new_states [] of
        Inl e \<Rightarrow> Inl e
      | Inr changes \<Rightarrow> Inr (get_changes_new new_states old_states changes))"

section \<open>The environment: clock, log sinks, subprocesses\<close>

text \<open>
  What the program reads from outside is an oracle in \<open>env\<close>, and what it does to the
  outside is recorded in \<open>world\<close>. \<open>clock e n\<close> is the value of the \<open>n\<close>-th call of
  \<^verbatim>\<open>time.time()\<close> (seconds; the float is taken as the exact real it denotes),
  \<open>re_search e pattern s\<close> is whether \<^verbatim>\<open>re.search(pattern, s)\<close> finds a match (or the
  \<^verbatim>\<open>re.error\<close> of a pattern that does not compile), \<open>subprocess_run e script arg\<close> is
  the outcome of \<^verbatim>\<open>subprocess.run([script, arg], capture_output=True, text=True)\<close>:
  the exception of a failed launch, or the completed process. \<open>fs e n path\<close> is the
  directory tree at \<open>path\<close> when the \<open>n\<close>-th snapshot is taken, and \<open>interrupt e n\<close>
  says that the main thread has cleared \<^verbatim>\<open>observer.running\<close> by the \<open>n\<close>-th test of the
  polling loop.
\<close>

datatype sink = Stdout | Textbox nat

record completed =
  returncode :: int
  stdout :: string
  stderr :: string

datatype node = File datetime | Dir datetime bool "(string \<times> node) list"

record env =
  clock :: "nat \<Rightarrow> real"
  re_search :: "string \<Rightarrow> string \<Rightarrow> error + bool"
  subprocess_run :: "string \<Rightarrow> string \<Rightarrow> error + completed"
  fs :: "nat \<Rightarrow> string \<Rightarrow> node option"
  interrupt :: "nat \<Rightarrow> bool"

record world =
  clock_reads :: nat
  log_lines :: "(sink \<times> string) list"
  run_calls :: "(string \<times> string) list"
  captures :: nat
  loop_tests :: nat
  threads :: nat

definition time_time :: "env \<Rightarrow> world \<Rightarrow> real \<times> world" where
  "time_time e w = (clock e (clock_reads w), w\<lparr>clock_reads := Suc (clock_reads w)\<rparr>)"

definition py_print :: "string \<Rightarrow> world \<Rightarrow> world" where
  "py_print msg w = w\<lparr>log_lines := log_lines w @ [(Stdout, msg)]\<rparr>"

text \<open>
  \<^verbatim>\<open>
  def log(msg, log_textbox=None):
      if log_textbox:
          log_textbox.insert(tk.END, f"{msg}\n")
      else:
          print(msg)
  \<close>
  A text box is a widget identified by a number; \<open>None\<close> is no widget.
\<close>

definition log_msg :: "string \<Rightarrow> nat option \<Rightarrow> world \<Rightarrow> world" where
  "log_msg msg log_textbox w =
     (case log_textbox of
        Some tb \<Rightarrow> w\<lparr>log_lines := log_lines w @ [(Textbox tb, msg)]\<rparr>
      | None \<Rightarrow> py_print msg w)"

section \<open>ChangeHandler\<close>

record ChangeHandler =
  actions :: "pyval list"
  log_textbox :: "nat option"
  last_file :: pyval
  last_update :: real
  script :: string

definition ChangeHandler_init ::
  "env \<Rightarrow> pyval list \<Rightarrow> string \<Rightarrow> nat option \<Rightarrow> world \<Rightarrow> ChangeHandler \<times> world" where
  "ChangeHandler_init e acts scr tb w =
     (let (t, w1) = time_time e w
      in (\<lparr>actions = acts, log_textbox = tb, last_file = PyNone, last_update = t,
           script = scr\<rparr>, w1))"

text \<open>
  \<^verbatim>\<open>
  def process_update(self, src_path, action: Action):
      log(f"File {action.name}: {src_path}", self.log_textbox)
      if src_path == self.last_file:  # prevent repeated events
          if time.time() - self.last_update < 1:
              return
      self.last_file = src_path
      self.last_update = time.time()
      result = subprocess.run([self.script, src_path], capture_output=True, text=True)
      log(f"finished with code {result.returncode}")
      if result.stdout:
          log(f"output: \n{result.stdout}")
      if result.stderr:
          log(f"error: \n{result.stderr}")
  \<close>
  The result is the exception raised, if any, with the handler and the world as they are
  at that point. \<open>run_calls\<close> lists the calls of \<^verbatim>\<open>subprocess.run\<close> that were made.
\<close>

definition report_result :: "completed \<Rightarrow> world \<Rightarrow> world" where
  "report_result result w =
     (let w1 = log_msg (''finished with code '' @ str_int (returncode result)) None w;
          w2 = (if stdout result \<noteq> []
                then log_msg (''output: '' @ [CHR 0x0A] @ stdout result) None w1 else w1)
      in (if stderr result \<noteq> []
          then log_msg (''error: '' @ [CHR 0x0A] @ stderr result) None w2 else w2))"

definition launch ::
  "env \<Rightarrow> ChangeHandler \<Rightarrow> pyval \<Rightarrow> world \<Rightarrow> error option \<times> ChangeHandler \<times> world" where
  "launch e h src_path w =
     (case src_path of
        Str p \<Rightarrow>
          (let w1 = w\<lparr>run_calls := run_calls w @ [(script h, p)]\<rparr>
           in case subprocess_run e (script h) p of
                Inl err \<Rightarrow> (Some err, h, w1)
              | Inr result \<Rightarrow> (None, h, report_result result w1))
      | _ \<Rightarrow> (Some TypeError, h, w))"

definition debounced :: "env \<Rightarrow> ChangeHandler \<Rightarrow> pyval \<Rightarrow> world \<Rightarrow> bool \<times> world" where
  "debounced e h src_path w =
     (if src_path = last_file h
      then (let (t, w1) = time_time e w in (t - last_update h < 1, w1))
      else (False, w))"

definition process_update ::
  "env \<Rightarrow> ChangeHandler \<Rightarrow> pyval \<Rightarrow> pyval \<Rightarrow> world
     \<Rightarrow> error option \<times> ChangeHandler \<times> world" where
  "process_update e h src_path action w =
     (case action of
        Enum a \<Rightarrow>
          (let w1 = log_msg (''File '' @ Action_name a @ '': '' @ py_str src_path)
                      (log_textbox h) w;
               (skip, w2) = debounced e h src_path w1
           in if skip then (None, h, w2)
              else (let (t, w3) = time_time e w2
                    in launch e (h\<lparr>last_file := src_path, last_update := t\<rparr>) src_path w3))
      | _ \<Rightarrow> (Some AttributeError, h, w))"

text \<open>
  A call \<^verbatim>\<open>handler.process_update(...)\<close> with the positional arguments \<open>args\<close>: the
  method takes exactly \<open>src_path\<close> and \<open>action\<close>, and Python raises \<^verbatim>\<open>TypeError\<close> on
  any other number of arguments before the body runs.
\<close>

fun call_process_update ::
  "env \<Rightarrow> ChangeHandler \<Rightarrow> pyval list \<Rightarrow> world \<Rightarrow> error option \<times> ChangeHandler \<times> world" where
  "call_process_update e h [src_path, action] w = process_update e h src_path action w"
| "call_process_update e h args w = (Some TypeError, h, w)"

section \<open>Observer.query_last_updates\<close>

text \<open>
  A directory tree: a file with its modification time, or a directory with its own
  modification time, whether it can be listed, and its entries in the order
  \<^verbatim>\<open>os.listdir\<close> returns them. The modification time is the \<^verbatim>\<open>datetime\<close> that
  \<^verbatim>\<open>datetime.datetime.fromtimestamp(os.path.getmtime(file_path))\<close> yields, as a number
  of microseconds. The tree does not change during one walk.
  \<^verbatim>\<open>
  def query_last_updates(self, path, last_updates=None, prefix=""):
      if last_updates is None:
          last_updates = {}
      os.listdir(path=path)
      for filename in os.listdir(path=path):
          file_path = os.path.join(path, filename)
          if self.recursive and os.path.isdir(file_path):
              self.query_last_updates(file_path, last_updates, prefix + filename + "/")
          mod_timestamp = os.path.getmtime(file_path)
          modification_time = datetime.datetime.fromtimestamp(mod_timestamp)
          last_updates[prefix + filename] = modification_time
      return last_updates
  \<close>
  The recursive call fills the same dictionary, and the lines after it run for a
  directory as for a file. \<^verbatim>\<open>os.listdir\<close> raises \<^verbatim>\<open>FileNotFoundError\<close> when there is
  nothing at the path, \<^verbatim>\<open>NotADirectoryError\<close> on a file and \<^verbatim>\<open>PermissionError\<close> on a
  directory that cannot be listed.
\<close>

fun isdir :: "node \<Rightarrow> bool" where
  "isdir (File t) = False"
| "isdir (Dir t listable entries) = True"

fun getmtime :: "node \<Rightarrow> datetime" where
  "getmtime (File t) = t"
| "getmtime (Dir t listable entries) = t"

function query_last_updates ::
    "bool \<Rightarrow> node option \<Rightarrow> snapshot \<Rightarrow> string \<Rightarrow> error + snapshot"
  and query_entries ::
    "bool \<Rightarrow> (string \<times> node) list \<Rightarrow> snapshot \<Rightarrow> string \<Rightarrow> error + snapshot" where
  "query_last_updates rec None last_updates prefix = Inl FileNotFoundError"
| "query_last_updates rec (Some (File t)) last_updates prefix = Inl NotADirectoryError"
| "query_last_updates rec (Some (Dir t listable entries)) last_updates prefix =
     (if listable then query_entries rec entries last_updates prefix
      else Inl PermissionError)"
| "query_entries rec [] last_updates prefix = Inr last_updates"
| "query_entries rec ((filename, n) # rest) last_updates prefix =
     (case (if rec \<and> isdir n
            then query_last_updates rec (Some n) last_updates (prefix @ filename @ ''/'')
            else Inr last_updates) of
        Inl err \<Rightarrow> Inl err
      | Inr last_updates1 \<Rightarrow>
          query_entries rec rest
            (AList.update (prefix @ filename) (getmtime n) last_updates1) prefix)"
  by pat_completeness auto
termination
  by (relation "measure (\<lambda>x. case x of
        Inl (rec, n, acc, prefix) \<Rightarrow> (case n of None \<Rightarrow> 0 | Some m \<Rightarrow> size m)
      | Inr (rec, entries, acc, prefix) \<Rightarrow> size_list (size_prod (\<lambda>_. 0) size) entries)")
     auto

text \<open>The call \<^verbatim>\<open>self.query_last_updates(path=self.path)\<close> with the defaults.\<close>

definition capture :: "bool \<Rightarrow> node option \<Rightarrow> error + snapshot" where
  "capture rec tree = query_last_updates rec tree [] []"

section \<open>Observer: the handler registry and dispatch\<close>

type_synonym registry = "(string \<times> ChangeHandler) list"

record Observer =
  path :: string
  recursive :: bool
  last_updates :: snapshot
  running :: bool
  thread :: "nat option"
  handlers :: registry
  observer_log_textbox :: "nat option"

text \<open>\<^verbatim>\<open>self.handlers[pattern] = handler\<close>\<close>

definition add_handler :: "string \<Rightarrow> ChangeHandler \<Rightarrow> Observer \<Rightarrow> Observer" where
  "add_handler pattern handler ob = ob\<lparr>handlers := AList.update pattern handler (handlers ob)\<rparr>"

text \<open>
  \<^verbatim>\<open>
  def process_changes(self, changes):
      for file_path, action in changes.items():
          for pattern, handler in self.handlers.items():
              if re.search(pattern, file_path):
                  if action in handler.actions:
                      handler.process_update(file_path)
  \<close>
  \<open>action\<close> is the string that \<open>get_changes\<close> stored; \<^verbatim>\<open>in\<close> compares it with the
  members of \<open>handler.actions\<close> by Python's \<^verbatim>\<open>==\<close>, under which a string and an enum
  member are never equal. The inner loop returns the handlers with their state updated.
\<close>

fun process_handlers ::
  "env \<Rightarrow> string \<Rightarrow> string \<Rightarrow> registry \<Rightarrow> world \<Rightarrow> error option \<times> registry \<times> world" where
  "process_handlers e file_path action [] w = (None, [], w)"
| "process_handlers e file_path action ((pattern, handler) # rest) w =
     (case re_search e pattern file_path of
        Inl err \<Rightarrow> (Some err, (pattern, handler) # rest, w)
      | Inr found \<Rightarrow>
          (if found \<and> Str action \<in> set (actions handler)
           then (case call_process_update e handler [Str file_path] w of
                   (Some err, handler', w') \<Rightarrow> (Some err, (pattern, handler') # rest, w')
                 | (None, handler', w') \<Rightarrow>
                     (case process_handlers e file_path action rest w' of
                        (r, rest', w'') \<Rightarrow> (r, (pattern, handler') # rest', w'')))
           else (case process_handlers e file_path action rest w of
                   (r, rest', w') \<Rightarrow> (r, (pattern, handler) # rest', w'))))"

fun process_changes_loop ::
  "env \<Rightarrow> changes \<Rightarrow> registry \<Rightarrow> world \<Rightarrow> error option \<times> registry \<times> world" where
  "process_changes_loop e [] hs w = (None, hs, w)"
| "process_changes_loop e ((file_path, action) # rest) hs w =
     (case process_handlers e file_path action hs w of
        (Some err, hs', w') \<Rightarrow> (Some err, hs', w')
      | (None, hs', w') \<Rightarrow> process_changes_loop e rest hs' w')"

definition process_changes ::
  "env \<Rightarrow> Observer \<Rightarrow> changes \<Rightarrow> world \<Rightarrow> error option \<times> Observer \<times> world" where
  "process_changes e ob chs w =
     (case process_changes_loop e chs (handlers ob) w of
        (r, hs', w') \<Rightarrow> (r, ob\<lparr>handlers := hs'\<rparr>, w'))"

section \<open>Observer: construction, the polling loop, start\<close>

text \<open>
  \<^verbatim>\<open>
  def __init__(self, path, recursive, handlers, log_textbox=None):
      self.path = path
      self.recursive = recursive
      self.last_updates = self.query_last_updates(path=self.path)
      self.running = False
      self.thread = None
      self.handlers = handlers
      self.log_textbox = log_textbox
  \<close>
\<close>

definition Observer_init ::
  "env \<Rightarrow> string \<Rightarrow> bool \<Rightarrow> registry \<Rightarrow> nat option \<Rightarrow> world \<Rightarrow> (error + Observer) \<times> world" where
  "Observer_init e p rec hs tb w =
     (let w1 = w\<lparr>captures := Suc (captures w)\<rparr>
      in case capture rec (fs e (captures w) p) of
           Inl err \<Rightarrow> (Inl err, w1)
         | Inr snap \<Rightarrow>
             (Inr \<lparr>path = p, recursive = rec, last_updates = snap, running = False,
                   thread = None, handlers = hs, observer_log_textbox = tb\<rparr>, w1))"

text \<open>
  \<^verbatim>\<open>
  def __process__(self):
      while self.running:
          time.sleep(1)
          new_updates = self.query_last_updates(self.path)
          changes = self.get_changes(self.last_updates, new_updates)
          if changes:
              print("changes detected")
              self.last_updates = new_updates
              self.process_changes(changes)
  \<close>
  \<open>tick\<close> is one run of the loop body; \<^verbatim>\<open>time.sleep(1)\<close> changes nothing that the
  model records. The loop has no exception handler: whatever the body raises ends the
  loop. The loop is given fuel, one unit per test of
  \<^verbatim>\<open>self.running\<close>, and \<open>None\<close> is a loop that is still running when the fuel is
  spent.
\<close>

definition tick :: "env \<Rightarrow> Observer \<Rightarrow> world \<Rightarrow> error option \<times> Observer \<times> world" where
  "tick e ob w =
     (let w1 = w\<lparr>captures := Suc (captures w)\<rparr>
      in case capture (recursive ob) (fs e (captures w) (path ob)) of
           Inl err \<Rightarrow> (Some err, ob, w1)
         | Inr new_updates \<Rightarrow>
             (case get_changes (last_updates ob) new_updates of
                Inl err \<Rightarrow> (Some err, ob, w1)
              | Inr chs \<Rightarrow>
                  (if chs \<noteq> []
                   then process_changes e (ob\<lparr>last_updates := new_updates\<rparr>) chs
                          (py_print ''changes detected'' w1)
                   else (None, ob, w1))))"

fun process_loop ::
  "nat \<Rightarrow> env \<Rightarrow> Observer \<Rightarrow> world \<Rightarrow> (error option \<times> Observer \<times> world) option" where
  "process_loop 0 e ob w = None"
| "process_loop (Suc fuel) e ob w =
     (let ob0 = (if interrupt e (loop_tests w) then ob\<lparr>running := False\<rparr> else ob);
          w0 = w\<lparr>loop_tests := Suc (loop_tests w)\<rparr>
      in if \<not> running ob0 then Some (None, ob0, w0)
         else (case tick e ob0 w0 of
                 (Some err, ob', w') \<Rightarrow> Some (Some err, ob', w')
               | (None, ob', w') \<Rightarrow> process_loop fuel e ob' w'))"

text \<open>
  \<^verbatim>\<open>
  def start(self):
      self.running = True
      self.thread = threading.Thread(target=self.__process__)
      self.thread.start()
  \<close>
  \<open>threads w\<close> counts the threads that have been started on \<^verbatim>\<open>__process__\<close>; a new
  thread is identified by its number.
\<close>

definition start :: "Observer \<Rightarrow> world \<Rightarrow> Observer \<times> world" where
  "start ob w =
     (ob\<lparr>running := True, thread := Some (threads w)\<rparr>, w\<lparr>threads := Suc (threads w)\<rparr>)"

section \<open>read\_handlers\<close>

text \<open>
  \<^verbatim>\<open>
  def read_handlers(file_path, log_textbox=None):
      if not os.path.isfile(file_path):
          raise FileNotFoundError(f"File {file_path} does not exist")
      configuration = json.load(open(file_path))
      handlers = {}
      for handler_data in configuration["handlers"]:
          actions = []
          for action_name in handler_data["actions"]:
              actions.append(ChangeHandler.Action[action_name])
          handler = ChangeHandler(actions=actions, script=handler_data["script"], log_textbox=log_textbox)
          handlers[handler_data["pattern"]] = handler
      return handlers
  \<close>
  The file is given by what \<^verbatim>\<open>json.load\<close> reads from it: \<open>None\<close> when there is no such
  file, else the list under \<^verbatim>\<open>"handlers"\<close>, each entry with its pattern, action names
  and script.
\<close>

record handler_data =
  cfg_pattern :: string
  cfg_actions :: "string list"
  cfg_script :: string

definition Action_by_name :: "string \<Rightarrow> error + Action" where
  "Action_by_name action_name =
     (if action_name = ''CREATE'' then Inr CREATE
      else if action_name = ''UPDATE'' then Inr UPDATE
      else if action_name = ''DELETE'' then Inr DELETE
      else Inl (KeyError action_name))"

fun read_actions :: "string list \<Rightarrow> pyval list \<Rightarrow> error + pyval list" where
  "read_actions [] acts = Inr acts"
| "read_actions (action_name # rest) acts =
     (case Action_by_name action_name of
        Inl err \<Rightarrow> Inl err
      | Inr a \<Rightarrow> read_actions rest (acts @ [Enum a]))"

fun read_handlers_loop ::
  "env \<Rightarrow> handler_data list \<Rightarrow> nat option \<Rightarrow> registry \<Rightarrow> world \<Rightarrow> (error + registry) \<times> world" where
  "read_handlers_loop e [] tb hs w = (Inr hs, w)"
| "read_handlers_loop e (d # rest) tb hs w =
     (case read_actions (cfg_actions d) [] of
        Inl err \<Rightarrow> (Inl err, w)
      | Inr acts \<Rightarrow>
          (let (handler, w1) = ChangeHandler_init e acts (cfg_script d) tb w
           in read_handlers_loop e rest tb (AList.update (cfg_pattern d) handler hs) w1))"

definition read_handlers ::
  "env \<Rightarrow> handler_data list option \<Rightarrow> nat option \<Rightarrow> world \<Rightarrow> (error + registry) \<times> world" where
  "read_handlers e file tb w =
     (case file of
        None \<Rightarrow> (Inl FileNotFoundError, w)
      | Some configuration \<Rightarrow> read_handlers_loop e configuration tb [] w)"

section \<open>The paths of a tree\<close>

text \<open>
  Two readings of "the entries under the root", both relative to the root and joined by
  \<^verbatim>\<open>/\<close>. \<open>listed_paths\<close> holds every name that a listing returns, files and
  directories alike: the direct children of the root, and with \<open>rec\<close> the entries of
  every directory below it. \<open>spec_file_paths\<close> follows the words of the specification:
  directories are traversed but are not themselves entries.
\<close>

function listed_paths :: "bool \<Rightarrow> node \<Rightarrow> string \<Rightarrow> string set"
  and listed_entries :: "bool \<Rightarrow> (string \<times> node) list \<Rightarrow> string \<Rightarrow> string set" where
  "listed_paths rec (File t) prefix = {}"
| "listed_paths rec (Dir t listable entries) prefix = listed_entries rec entries prefix"
| "listed_entries rec [] prefix = {}"
| "listed_entries rec ((filename, n) # rest) prefix =
     insert (prefix @ filename)
       ((if rec then listed_paths rec n (prefix @ filename @ ''/'') else {})
        \<union> listed_entries rec rest prefix)"
  by pat_completeness auto
termination
  by (relation "measure (\<lambda>x. case x of
        Inl (rec, n, prefix) \<Rightarrow> size n
      | Inr (rec, entries, prefix) \<Rightarrow> size_list (size_prod (\<lambda>_. 0) size) entries)")
     auto

function spec_file_paths :: "bool \<Rightarrow> node \<Rightarrow> string \<Rightarrow> string set"
  and spec_file_entries :: "bool \<Rightarrow> (string \<times> node) list \<Rightarrow> string \<Rightarrow> string set" where
  "spec_file_paths rec (File t) prefix = {}"
| "spec_file_paths rec (Dir t listable entries) prefix = spec_file_entries rec entries prefix"
| "spec_file_entries rec [] prefix = {}"
| "spec_file_entries rec ((filename, n) # rest) prefix =
     (if isdir n
      then (if rec then spec_file_paths rec n (prefix @ filename @ ''/'') else {})
      else {prefix @ filename})
     \<union> spec_file_entries rec rest prefix"
  by pat_completeness auto
termination
  by (relation "measure (\<lambda>x. case x of
        Inl (rec, n, prefix) \<Rightarrow> size n
      | Inr (rec, entries, prefix) \<Rightarrow> size_list (size_prod (\<lambda>_. 0) size) entries)")
     auto

text \<open>
  \<open>listed_items\<close> pairs every listed name with the modification time of the entry it
  names, a directory's own modification time for a directory.
\<close>

function listed_items :: "bool \<Rightarrow> node \<Rightarrow> string \<Rightarrow> (string \<times> datetime) set"
  and listed_item_entries ::
    "bool \<Rightarrow> (string \<times> node) list \<Rightarrow> string \<Rightarrow> (string \<times> datetime) set" where
  "listed_items rec (File t) prefix = {}"
| "listed_items rec (Dir t listable entries) prefix = listed_item_entries rec entries prefix"
| "listed_item_entries rec [] prefix = {}"
| "listed_item_entries rec ((filename, n) # rest) prefix =
     insert (prefix @ filename, getmtime n)
       ((if rec then listed_items rec n (prefix @ filename @ ''/'') else {})
        \<union> listed_item_entries rec rest prefix)"
  by pat_completeness auto
termination
  by (relation "measure (\<lambda>x. case x of
        Inl (rec, n, prefix) \<Rightarrow> size n
      | Inr (rec, entries, prefix) \<Rightarrow> size_list (size_prod (\<lambda>_. 0) size) entries)")
     auto

section \<open>Sample inputs\<close>

text \<open>
  Concrete environments, worlds, handlers and observers on which the theorems below are
  instantiated. \<open>env_of\<close> builds an environment from a clock, a regular-expression
  oracle, a subprocess oracle and the tree seen at each snapshot; the main thread never
  interrupts.
\<close>

definition env_of ::
  "(nat \<Rightarrow> real) \<Rightarrow> (string \<Rightarrow> string \<Rightarrow> error + bool)
     \<Rightarrow> (string \<Rightarrow> string \<Rightarrow> error + completed) \<Rightarrow> (nat \<Rightarrow> node option) \<Rightarrow> env" where
  "env_of clk search run tree =
     \<lparr>clock = clk, re_search = search, subprocess_run = run, fs = (\<lambda>n p. tree n),
      interrupt = (\<lambda>n. False)\<rparr>"

definition run_ok :: "string \<Rightarrow> string \<Rightarrow> error + completed" where
  "run_ok scr arg = Inr \<lparr>returncode = 0, stdout = [], stderr = []\<rparr>"

definition run_missing :: "string \<Rightarrow> string \<Rightarrow> error + completed" where
  "run_missing scr arg = Inl FileNotFoundError"

definition search_all :: "string \<Rightarrow> string \<Rightarrow> error + bool" where
  "search_all pattern s = Inr True"

definition world0 :: world where
  "world0 = \<lparr>clock_reads = 0, log_lines = [], run_calls = [], captures = 0, loop_tests = 0,
             threads = 0\<rparr>"

definition handler0 :: "pyval \<Rightarrow> real \<Rightarrow> ChangeHandler" where
  "handler0 lf lu =
     \<lparr>actions = [Enum UPDATE], log_textbox = None, last_file = lf, last_update = lu,
      script = ''convert.sh''\<rparr>"

definition observer0 :: Observer where
  "observer0 =
     \<lparr>path = ''watched'', recursive = False, last_updates = [], running = False,
      thread = None, handlers = [], observer_log_textbox = None\<rparr>"

text \<open>
  The routing example of the specification: the configuration, and the registry that
  \<open>read_handlers\<close> builds from it (\<open>ta\<close> and \<open>tb\<close> are the clock readings of the two
  constructors). The first pattern is the six characters \<^verbatim>\<open>\.pdf$\<close>.
\<close>

definition routing_config :: "handler_data list" where
  "routing_config =
     [\<lparr>cfg_pattern = CHR 0x5C # ''.pdf$'', cfg_actions = [''UPDATE''],
       cfg_script = ''scriptA''\<rparr>,
      \<lparr>cfg_pattern = ''draft'', cfg_actions = [''CREATE'', ''DELETE''],
       cfg_script = ''scriptB''\<rparr>]"

definition routing_rules :: "real \<Rightarrow> real \<Rightarrow> registry" where
  "routing_rules ta tb =
     [(CHR 0x5C # ''.pdf$'',
       \<lparr>actions = [Enum UPDATE], log_textbox = None, last_file = PyNone, last_update = ta,
        script = ''scriptA''\<rparr>),
      (''draft'',
       \<lparr>actions = [Enum CREATE, Enum DELETE], log_textbox = None, last_file = PyNone,
        last_update = tb, script = ''scriptB''\<rparr>)]"

definition routing_search :: "string \<Rightarrow> string \<Rightarrow> error + bool" where
  "routing_search pattern s = Inr (\<not> (pattern = ''draft'' \<and> s = ''final.pdf''))"

text \<open>
  The debounce example of the specification as a run of the code: a handler is built at
  time 0 and triggered three times with the same path; the clock reads 5 when the first
  trigger records its time, 5.9 at the debounce test of the second and 6.1 from the
  third on.
\<close>

definition debounce_env :: env where
  "debounce_env =
     env_of (\<lambda>n. if n = 0 then 0 else if n = 1 then 5 else if n = 2 then 59 / 10 else 61 / 10)
       search_all run_ok (\<lambda>n. None)"

definition debounce_start :: "ChangeHandler \<times> world" where
  "debounce_start = ChangeHandler_init debounce_env [Enum UPDATE] ''convert.sh'' None world0"

definition debounce_run1 :: "error option \<times> ChangeHandler \<times> world" where
  "debounce_run1 =
     process_update debounce_env (fst debounce_start) (Str ''a.pdf'') (Enum UPDATE)
       (snd debounce_start)"

definition debounce_run2 :: "error option \<times> ChangeHandler \<times> world" where
  "debounce_run2 =
     process_update debounce_env (fst (snd debounce_run1)) (Str ''a.pdf'') (Enum UPDATE)
       (snd (snd debounce_run1))"

definition debounce_run3 :: "error option \<times> ChangeHandler \<times> world" where
  "debounce_run3 =
     process_update debounce_env (fst (snd debounce_run2)) (Str ''a.pdf'') (Enum UPDATE)
       (snd (snd debounce_run2))"

text \<open>Trees: a directory holding one file \<open>a\<close>, and one holding a directory \<open>d\<close> with a file \<open>f\<close>.\<close>

definition tree_a :: "datetime \<Rightarrow> node" where
  "tree_a t = Dir 0 True [(''a'', File t)]"

definition tree_d :: node where
  "tree_d = Dir 1 True [(''d'', Dir 3 True [(''f'', File 7)])]"

text \<open>
  An environment in which no script can be launched, and a handler whose action set
  holds the string \<^verbatim>\<open>"CREATE"\<close>, so that the membership test of dispatch succeeds.
\<close>

definition failing_env :: env where
  "failing_env = env_of (\<lambda>n. 5) search_all run_missing (\<lambda>n. Some (tree_a 3))"

definition raising_handler :: ChangeHandler where
  "raising_handler = handler0 PyNone 0\<lparr>actions := [Str ''CREATE'']\<rparr>"

section \<open>Properties of get\_changes\<close>

lemma dict_contains_iff: "dict_contains d k = (k \<in> fst ` set d)"
  by (simp add: dict_contains_def map_of_eq_None_iff)

lemma get_changes_old_isl:
  "isl (get_changes_old old_states new_states acc) =
     (\<exists>k \<in> fst ` set old_states. k \<notin> fst ` set new_states)"
proof (induction old_states arbitrary: acc)
  case Nil
  show ?case by simp
next
  case (Cons entry rest)
  obtain file_path update_time where entry: "entry = (file_path, update_time)"
    by (cases entry)
  show ?case
  proof (cases "map_of new_states file_path")
    case None
    then have "file_path \<notin> fst ` set new_states"
      by (simp add: map_of_eq_None_iff)
    with None show ?thesis
      by (simp add: entry dict_get_def)
  next
    case (Some new_time)
    then have "file_path \<in> fst ` set new_states"
      by (metis map_of_eq_None_iff option.distinct(1))
    with Some show ?thesis
      by (simp add: entry dict_get_def dict_contains_def Cons.IH)
  qed
qed

text \<open>
  Claim C1 says that the diff of two snapshots holds a DELETE record for every path of
  the old snapshot that the new one lacks (with CREATE and UPDATE records for the other
  two cases, and nothing else). On the old snapshot \<open>{a.txt: 1}\<close> and the empty new
  snapshot the claim asks for the record \<open>a.txt: DELETE\<close>; \<open>get_changes\<close> stores that
  record and then raises \<^verbatim>\<open>KeyError\<close> on the lookup \<^verbatim>\<open>new_states[file_path]\<close>, so no
  change set is returned.
\<close>

theorem get_changes_delete_raises:
  "get_changes [(''a.txt'', 1)] [] = Inl (KeyError ''a.txt'')"
  by (simp add: get_changes_def dict_get_def dict_contains_def)

text \<open>
  Claim C2 says that the diff is total: it returns a change set for every pair of
  snapshots, no lookup leaving the domain of its dictionary. The code raises exactly
  when some path of the old snapshot is absent from the new one, that is, whenever a
  watched file has been deleted.
\<close>

theorem get_changes_raises_iff:
  "isl (get_changes old_states new_states) =
     (\<exists>k \<in> fst ` set old_states. k \<notin> fst ` set new_states)"
proof -
  have "isl (get_changes old_states new_states) =
          isl (get_changes_old old_states new_states [])"
    by (simp add: get_changes_def split: sum.splits)
  then show ?thesis
    by (simp add: get_changes_old_isl)
qed

theorem get_changes_raises_iff_witness:
  "isl (get_changes [(''a'', 1), (''b'', 2)] [(''a'', 3)])"
  using get_changes_raises_iff [of "[(''a'', 1), (''b'', 2)]" "[(''a'', 3)]"]
  by simp

lemma get_changes_new_map:
  "map_of (get_changes_new new_states old_states acc) k =
     (if k \<in> fst ` set new_states \<and> k \<notin> fst ` set old_states
      then Some ''CREATE'' else map_of acc k)"
proof (induction new_states arbitrary: acc)
  case Nil
  show ?case by simp
next
  case (Cons entry rest)
  obtain file_path update_time where entry: "entry = (file_path, update_time)"
    by (cases entry)
  show ?case
    by (simp add: entry Cons.IH dict_contains_iff AList.update_conv')
qed

lemma get_changes_old_map:
  assumes "distinct (map fst old_states)"
    and "fst ` set old_states \<subseteq> fst ` set new_states"
  shows "\<exists>chs. get_changes_old old_states new_states acc = Inr chs \<and>
     (\<forall>k. map_of chs k =
        (case map_of old_states k of
           None \<Rightarrow> map_of acc k
         | Some t \<Rightarrow>
             (case map_of new_states k of
                None \<Rightarrow> map_of acc k
              | Some t' \<Rightarrow> if t < t' then Some ''UPDATE'' else map_of acc k)))"
  using assms
proof (induction old_states arbitrary: acc)
  case Nil
  show ?case by simp
next
  case (Cons entry rest)
  obtain file_path update_time where entry: "entry = (file_path, update_time)"
    by (cases entry)
  from Cons.prems(2) have "file_path \<in> fst ` set new_states"
    by (simp add: entry)
  then obtain new_time where found: "map_of new_states file_path = Some new_time"
    by (metis map_of_eq_None_iff not_Some_eq)
  define acc' where
    "acc' = (if update_time < new_time then AList.update file_path ''UPDATE'' acc else acc)"
  from found have step: "get_changes_old (entry # rest) new_states acc =
      get_changes_old rest new_states acc'"
    by (simp add: entry dict_get_def dict_contains_def acc'_def)
  from Cons.prems have "distinct (map fst rest)" and "fst ` set rest \<subseteq> fst ` set new_states"
    by simp_all
  from Cons.IH [OF this, of acc'] obtain chs where
    run: "get_changes_old rest new_states acc' = Inr chs" and
    chs: "\<And>k. map_of chs k =
        (case map_of rest k of
           None \<Rightarrow> map_of acc' k
         | Some t \<Rightarrow>
             (case map_of new_states k of
                None \<Rightarrow> map_of acc' k
              | Some t' \<Rightarrow> if t < t' then Some ''UPDATE'' else map_of acc' k))"
    by blast
  from Cons.prems(1) have fresh: "map_of rest file_path = None"
    by (simp add: entry map_of_eq_None_iff)
  have "map_of chs k =
        (case map_of (entry # rest) k of
           None \<Rightarrow> map_of acc k
         | Some t \<Rightarrow>
             (case map_of new_states k of
                None \<Rightarrow> map_of acc k
              | Some t' \<Rightarrow> if t < t' then Some ''UPDATE'' else map_of acc k))" for k
  proof (cases "k = file_path")
    case True
    with fresh found show ?thesis
      by (simp add: chs entry acc'_def AList.update_conv')
  next
    case False
    then have "map_of acc' k = map_of acc k"
      by (simp add: acc'_def AList.update_conv')
    with False show ?thesis
      by (simp add: chs entry split: option.splits)
  qed
  with step run show ?case
    by simp
qed

text \<open>
  Where no path of the old snapshot is missing from the new one, the diff is returned
  and classifies every path as specified: CREATE for a path that only the new snapshot
  has, UPDATE for a shared path whose timestamp is strictly greater in the new
  snapshot, and no record for any other path.
\<close>

lemma get_changes_without_deletions:
  assumes "distinct (map fst old_states)"
    and "fst ` set old_states \<subseteq> fst ` set new_states"
  shows "\<exists>chs. get_changes old_states new_states = Inr chs \<and>
     (\<forall>k. map_of chs k =
        (case map_of old_states k of
           None \<Rightarrow> if k \<in> fst ` set new_states then Some ''CREATE'' else None
         | Some t \<Rightarrow>
             (case map_of new_states k of
                None \<Rightarrow> None
              | Some t' \<Rightarrow> if t < t' then Some ''UPDATE'' else None)))"
proof -
  from get_changes_old_map [OF assms, of "[]"] obtain mid where
    run: "get_changes_old old_states new_states [] = Inr mid" and
    mid0: "\<forall>k. map_of mid k =
        (case map_of old_states k of
           None \<Rightarrow> map_of [] k
         | Some t \<Rightarrow>
             (case map_of new_states k of
                None \<Rightarrow> map_of [] k
              | Some t' \<Rightarrow> if t < t' then Some ''UPDATE'' else map_of [] k))"
    by blast
  have mid: "map_of mid k =
        (case map_of old_states k of
           None \<Rightarrow> None
         | Some t \<Rightarrow>
             (case map_of new_states k of
                None \<Rightarrow> None
              | Some t' \<Rightarrow> if t < t' then Some ''UPDATE'' else None))" for k
    using mid0 by (simp split: option.splits)
  have "map_of (get_changes_new new_states old_states mid) k =
        (case map_of old_states k of
           None \<Rightarrow> if k \<in> fst ` set new_states then Some ''CREATE'' else None
         | Some t \<Rightarrow>
             (case map_of new_states k of
                None \<Rightarrow> None
              | Some t' \<Rightarrow> if t < t' then Some ''UPDATE'' else None))" for k
  proof (cases "map_of old_states k")
    case None
    then have "k \<notin> fst ` set old_states"
      by (simp add: map_of_eq_None_iff)
    with None show ?thesis
      by (simp add: get_changes_new_map mid)
  next
    case (Some t)
    then have "k \<in> fst ` set old_states"
      by (metis map_of_eq_None_iff option.distinct(1))
    with Some show ?thesis
      by (simp add: get_changes_new_map mid)
  qed
  with run show ?thesis
    by (simp add: get_changes_def)
qed

section \<open>Properties of dispatch\<close>

lemma read_routing_config:
  "fst (read_handlers e (Some routing_config) None w) =
     Inr (routing_rules (clock e (clock_reads w)) (clock e (Suc (clock_reads w))))"
  by (simp add: read_handlers_def routing_config_def routing_rules_def Action_by_name_def
      ChangeHandler_init_def time_time_def)

lemma call_process_update_one_arg:
  "call_process_update e h [x] w = (Some TypeError, h, w)"
  by simp

text \<open>
  Dispatch changes neither the world nor the handlers: the only call of
  \<open>process_update\<close> in \<open>process_changes\<close> passes one argument where two are required.
\<close>

lemma process_handlers_frame:
  "snd (process_handlers e file_path action hs w) = (hs, w)"
proof (induction hs)
  case Nil
  show ?case by simp
next
  case (Cons entry rest)
  obtain pattern handler where entry: "entry = (pattern, handler)"
    by (cases entry)
  from Cons.IH show ?case
    by (auto simp: entry split: sum.splits prod.splits)
qed

lemma process_changes_loop_frame:
  "snd (process_changes_loop e chs hs w) = (hs, w)"
proof (induction chs)
  case Nil
  show ?case by simp
next
  case (Cons entry rest)
  obtain file_path action where entry: "entry = (file_path, action)"
    by (cases entry)
  obtain r hs' w' where step: "process_handlers e file_path action hs w = (r, hs', w')"
    by (cases "process_handlers e file_path action hs w")
  with process_handlers_frame [of e file_path action hs w] have same: "hs' = hs" "w' = w"
    by simp_all
  from Cons.IH step same show ?case
    by (cases r) (simp_all add: entry)
qed

lemma process_changes_frame:
  "snd (process_changes e ob chs w) = (ob, w)"
  using process_changes_loop_frame [of e chs "handlers ob" w]
  by (auto simp: process_changes_def split: prod.splits)

text \<open>
  Claim C3 says that dispatch invokes exactly the handlers whose pattern matches the
  path and whose action set contains the action: with the two routing rules, a CREATE of
  \<open>draft.pdf\<close> fires scriptB and an UPDATE of \<open>final.pdf\<close> fires scriptA. With the registry
  that \<open>read_handlers\<close> builds (lemma \<open>read_routing_config\<close>) and \<^verbatim>\<open>re.search\<close>
  answering as Python does on these patterns and paths, \<open>process_changes\<close> returns
  normally on both change records and leaves the world as it was: no command is run
  and nothing is logged. The action of a change record is a string, the members of
  \<open>handler.actions\<close> are enum members, and \<^verbatim>\<open>action in handler.actions\<close> is false.
\<close>

theorem process_changes_routing_fires_nothing:
  assumes "re_search e ''draft'' ''draft.pdf'' = Inr True"
    and "re_search e (CHR 0x5C # ''.pdf$'') ''draft.pdf'' = Inr True"
    and "re_search e (CHR 0x5C # ''.pdf$'') ''final.pdf'' = Inr True"
    and "re_search e ''draft'' ''final.pdf'' = Inr False"
  shows "process_changes e (ob\<lparr>handlers := routing_rules ta tb\<rparr>)
           [(''draft.pdf'', ''CREATE'')] w =
           (None, ob\<lparr>handlers := routing_rules ta tb\<rparr>, w) \<and>
         process_changes e (ob\<lparr>handlers := routing_rules ta tb\<rparr>)
           [(''final.pdf'', ''UPDATE'')] w =
           (None, ob\<lparr>handlers := routing_rules ta tb\<rparr>, w)"
  using assms by (simp add: process_changes_def routing_rules_def)

theorem process_changes_routing_fires_nothing_witness:
  "run_calls (snd (snd (process_changes (env_of (\<lambda>n. 0) routing_search run_ok (\<lambda>n. None))
      (observer0\<lparr>handlers := routing_rules 0 0\<rparr>) [(''draft.pdf'', ''CREATE'')] world0))) = [] \<and>
   run_calls (snd (snd (process_changes (env_of (\<lambda>n. 0) routing_search run_ok (\<lambda>n. None))
      (observer0\<lparr>handlers := routing_rules 0 0\<rparr>) [(''final.pdf'', ''UPDATE'')] world0))) = []"
  using process_changes_routing_fires_nothing
    [where e = "env_of (\<lambda>n. 0) routing_search run_ok (\<lambda>n. None)" and ob = observer0
       and ta = 0 and tb = 0 and w = world0]
  by (simp add: env_of_def routing_search_def world0_def)

text \<open>
  When the members of \<open>handler.actions\<close> are strings, so that the membership test can
  succeed, the call \<^verbatim>\<open>handler.process_update(file_path)\<close> raises \<^verbatim>\<open>TypeError\<close> and
  dispatch stops at that handler.
\<close>

lemma process_handlers_call_raises:
  assumes "re_search e pattern file_path = Inr True"
    and "Str action \<in> set (actions handler)"
  shows "process_handlers e file_path action ((pattern, handler) # rest) w =
           (Some TypeError, (pattern, handler) # rest, w)"
  using assms by simp

section \<open>Properties of process\_update\<close>

lemma log_msg_frame:
  "run_calls (log_msg msg tb w) = run_calls w"
  "clock_reads (log_msg msg tb w) = clock_reads w"
  "captures (log_msg msg tb w) = captures w"
  "loop_tests (log_msg msg tb w) = loop_tests w"
  "threads (log_msg msg tb w) = threads w"
  by (simp_all add: log_msg_def py_print_def split: option.splits)

lemma log_msg_lines:
  "log_lines (log_msg msg tb w) =
     log_lines w @ [(case tb of None \<Rightarrow> Stdout | Some b \<Rightarrow> Textbox b, msg)]"
  by (simp add: log_msg_def py_print_def split: option.splits)

lemma report_result_frame:
  "run_calls (report_result result w) = run_calls w"
  "clock_reads (report_result result w) = clock_reads w"
  by (simp_all add: report_result_def Let_def log_msg_frame)

lemma launch_run_calls:
  "run_calls (snd (snd (launch e h (Str p) w))) = run_calls w @ [(script h, p)]"
  by (simp add: launch_def Let_def report_result_frame split: sum.splits)

lemma launch_handler:
  "fst (snd (launch e h src_path w)) = h"
  by (simp add: launch_def Let_def split: sum.splits pyval.splits)

lemma process_update_fires:
  assumes "last_file h \<noteq> Str p \<or> 1 \<le> clock e (clock_reads w) - last_update h"
  shows "run_calls (snd (snd (process_update e h (Str p) (Enum a) w))) =
           run_calls w @ [(script h, p)]"
    and "last_file (fst (snd (process_update e h (Str p) (Enum a) w))) = Str p"
  using assms
  by (auto simp: process_update_def debounced_def time_time_def Let_def log_msg_frame
      launch_run_calls launch_handler eq_commute [of "Str p" "last_file h"]
      split: prod.splits)

lemma process_update_skips:
  assumes "last_file h = Str p" and "clock e (clock_reads w) - last_update h < 1"
  shows "process_update e h (Str p) (Enum a) w =
           (None, h,
            log_msg (''File '' @ Action_name a @ '': '' @ p) (log_textbox h) w
              \<lparr>clock_reads := Suc (clock_reads w)\<rparr>)"
  using assms
  by (simp add: process_update_def debounced_def time_time_def Let_def log_msg_frame)

lemma launch_clock_reads:
  "clock_reads (snd (snd (launch e h (Str p) w))) = clock_reads w"
  by (simp add: launch_def Let_def report_result_frame split: sum.splits)

lemma process_update_fired_state:
  assumes "last_file h \<noteq> Str p \<or> 1 \<le> clock e (clock_reads w) - last_update h"
  shows "fst (snd (process_update e h (Str p) (Enum a) w)) =
           h\<lparr>last_file := Str p,
             last_update := clock e (if last_file h = Str p then Suc (clock_reads w)
                                     else clock_reads w)\<rparr>"
    and "clock_reads (snd (snd (process_update e h (Str p) (Enum a) w))) =
           (if last_file h = Str p then Suc (Suc (clock_reads w)) else Suc (clock_reads w))"
  using assms
  by (auto simp: process_update_def debounced_def time_time_def Let_def log_msg_frame
      launch_clock_reads launch_handler eq_commute [of "Str p" "last_file h"]
      split: prod.splits)

lemma process_update_run_calls_iff:
  "(run_calls (snd (snd (process_update e h (Str p) (Enum a) w))) = run_calls w) =
     (last_file h = Str p \<and> clock e (clock_reads w) - last_update h < 1)"
proof (cases "last_file h = Str p \<and> clock e (clock_reads w) - last_update h < 1")
  case True
  then show ?thesis
    by (simp add: process_update_skips log_msg_frame)
next
  case False
  then have "last_file h \<noteq> Str p \<or> 1 \<le> clock e (clock_reads w) - last_update h"
    by auto
  from process_update_fires(1) [OF this, of a] False show ?thesis
    by simp
qed

text \<open>
  Claim C4, as amended. For every handler, path \<open>p\<close> and action: a trigger of \<open>p\<close> calls
  the command when \<open>p\<close> differs from the handler's last-triggered path or at least 1
  second separates the clock from the handler's last trigger, and it then records \<open>p\<close>
  as the last-triggered path and the clock reading taken at that moment as the time of
  the last trigger, so that the next trigger of \<open>p\<close> is suppressed exactly when the
  clock is less than 1 second past that reading. When \<open>p\<close> is the last-triggered path
  and less than 1 second has passed, no command is called and the handler is unchanged,
  and exactly one line, \<^verbatim>\<open>File <ACTION>: <p>\<close>, is logged: the line is written before
  the debounce test. A handler that has never been triggered calls the command on its
  first trigger.
\<close>

theorem process_update_debounce:
  "(last_file h \<noteq> Str p \<or> 1 \<le> clock e (clock_reads w) - last_update h \<longrightarrow>
      run_calls (snd (snd (process_update e h (Str p) (Enum a) w))) =
        run_calls w @ [(script h, p)] \<and>
      fst (snd (process_update e h (Str p) (Enum a) w)) =
        h\<lparr>last_file := Str p,
          last_update := clock e (if last_file h = Str p then Suc (clock_reads w)
                                  else clock_reads w)\<rparr> \<and>
      clock_reads (snd (snd (process_update e h (Str p) (Enum a) w))) =
        (if last_file h = Str p then Suc (Suc (clock_reads w)) else Suc (clock_reads w)) \<and>
      ((run_calls (snd (snd (process_update e
            (fst (snd (process_update e h (Str p) (Enum a) w))) (Str p) (Enum b)
            (snd (snd (process_update e h (Str p) (Enum a) w)))))) =
          run_calls (snd (snd (process_update e h (Str p) (Enum a) w)))) =
       (clock e (clock_reads (snd (snd (process_update e h (Str p) (Enum a) w))))
          - clock e (if last_file h = Str p then Suc (clock_reads w) else clock_reads w)
        < 1))) \<and>
   (last_file h = Str p \<and> clock e (clock_reads w) - last_update h < 1 \<longrightarrow>
      fst (process_update e h (Str p) (Enum a) w) = None \<and>
      fst (snd (process_update e h (Str p) (Enum a) w)) = h \<and>
      run_calls (snd (snd (process_update e h (Str p) (Enum a) w))) = run_calls w \<and>
      clock_reads (snd (snd (process_update e h (Str p) (Enum a) w))) = Suc (clock_reads w) \<and>
      log_lines (snd (snd (process_update e h (Str p) (Enum a) w))) =
        log_lines w @
          [(case log_textbox h of None \<Rightarrow> Stdout | Some tb \<Rightarrow> Textbox tb,
            ''File '' @ Action_name a @ '': '' @ p)]) \<and>
   (last_file h = PyNone \<longrightarrow>
      run_calls (snd (snd (process_update e h (Str p) (Enum a) w))) =
        run_calls w @ [(script h, p)])"
proof (intro conjI impI)
  assume fire: "last_file h \<noteq> Str p \<or> 1 \<le> clock e (clock_reads w) - last_update h"
  from process_update_fires(1) [OF fire]
  show "run_calls (snd (snd (process_update e h (Str p) (Enum a) w))) =
          run_calls w @ [(script h, p)]" .
  from process_update_fired_state(1) [OF fire]
  show state: "fst (snd (process_update e h (Str p) (Enum a) w)) =
      h\<lparr>last_file := Str p,
        last_update := clock e (if last_file h = Str p then Suc (clock_reads w)
                                else clock_reads w)\<rparr>" .
  from process_update_fired_state(2) [OF fire]
  show "clock_reads (snd (snd (process_update e h (Str p) (Enum a) w))) =
      (if last_file h = Str p then Suc (Suc (clock_reads w)) else Suc (clock_reads w))" .
  show "(run_calls (snd (snd (process_update e
            (fst (snd (process_update e h (Str p) (Enum a) w))) (Str p) (Enum b)
            (snd (snd (process_update e h (Str p) (Enum a) w)))))) =
          run_calls (snd (snd (process_update e h (Str p) (Enum a) w)))) =
       (clock e (clock_reads (snd (snd (process_update e h (Str p) (Enum a) w))))
          - clock e (if last_file h = Str p then Suc (clock_reads w) else clock_reads w)
        < 1)"
    by (simp only: process_update_run_calls_iff state) simp
next
  assume skip: "last_file h = Str p \<and> clock e (clock_reads w) - last_update h < 1"
  then have eq: "process_update e h (Str p) (Enum a) w =
      (None, h,
       log_msg (''File '' @ Action_name a @ '': '' @ p) (log_textbox h) w
         \<lparr>clock_reads := Suc (clock_reads w)\<rparr>)"
    by (simp add: process_update_skips)
  show "fst (process_update e h (Str p) (Enum a) w) = None"
    by (simp add: eq)
  show "fst (snd (process_update e h (Str p) (Enum a) w)) = h"
    by (simp add: eq)
  show "run_calls (snd (snd (process_update e h (Str p) (Enum a) w))) = run_calls w"
    by (simp add: eq log_msg_frame)
  show "clock_reads (snd (snd (process_update e h (Str p) (Enum a) w))) = Suc (clock_reads w)"
    by (simp add: eq)
  show "log_lines (snd (snd (process_update e h (Str p) (Enum a) w))) =
        log_lines w @
          [(case log_textbox h of None \<Rightarrow> Stdout | Some tb \<Rightarrow> Textbox tb,
            ''File '' @ Action_name a @ '': '' @ p)]"
    by (simp add: eq log_msg_lines)
next
  assume "last_file h = PyNone"
  then have "last_file h \<noteq> Str p \<or> 1 \<le> clock e (clock_reads w) - last_update h"
    by simp
  from process_update_fires(1) [OF this]
  show "run_calls (snd (snd (process_update e h (Str p) (Enum a) w))) =
          run_calls w @ [(script h, p)]" .
qed

text \<open>
  The debounce example of the specification, run from the construction of the handler:
  the first trigger of \<open>a.pdf\<close> calls the command, the second, 900 ms after it, does
  not, and the third, 1100 ms after the first, does.
\<close>

theorem process_update_debounce_witness:
  "run_calls (snd (snd debounce_run1)) = [(''convert.sh'', ''a.pdf'')] \<and>
   run_calls (snd (snd debounce_run2)) = [(''convert.sh'', ''a.pdf'')] \<and>
   run_calls (snd (snd debounce_run3)) =
     [(''convert.sh'', ''a.pdf''), (''convert.sh'', ''a.pdf'')]"
  using
    process_update_debounce [where e = debounce_env and h = "fst debounce_start"
      and w = "snd debounce_start" and p = "''a.pdf''" and a = UPDATE and b = UPDATE]
    process_update_debounce [where e = debounce_env and h = "fst (snd debounce_run1)"
      and w = "snd (snd debounce_run1)" and p = "''a.pdf''" and a = UPDATE and b = UPDATE]
    process_update_debounce [where e = debounce_env and h = "fst (snd debounce_run2)"
      and w = "snd (snd debounce_run2)" and p = "''a.pdf''" and a = UPDATE and b = UPDATE]
  by (simp add: debounce_run3_def debounce_run2_def debounce_run1_def debounce_start_def
      debounce_env_def env_of_def world0_def ChangeHandler_init_def time_time_def
      process_update_def debounced_def launch_def run_ok_def report_result_def log_msg_def
      py_print_def str_int_def)

text \<open>
  Claim C4 as stated fails: with \<open>a.pdf\<close> the last-triggered path and 900 ms elapsed,
  the trigger is suppressed and yet a log line is emitted.
\<close>

theorem process_update_suppressed_logs:
  "last_file (handler0 (Str ''a.pdf'') 5) = Str ''a.pdf'' \<and>
   clock (env_of (\<lambda>n. 59 / 10) search_all run_ok (\<lambda>n. None)) (clock_reads world0)
     - last_update (handler0 (Str ''a.pdf'') 5) < 1 \<and>
   log_lines world0 = [] \<and>
   log_lines (snd (snd (process_update (env_of (\<lambda>n. 59 / 10) search_all run_ok (\<lambda>n. None))
      (handler0 (Str ''a.pdf'') 5) (Str ''a.pdf'') (Enum UPDATE) world0))) =
     [(Stdout, ''File UPDATE: a.pdf'')]"
  by (simp add: process_update_def debounced_def time_time_def log_msg_def py_print_def
      env_of_def handler0_def world0_def)

section \<open>Properties of query\_last\_updates\<close>

lemma query_keys:
  "(query_last_updates rec tree acc prefix = Inr snap \<longrightarrow>
      (\<exists>n. tree = Some n \<and> fst ` set snap = fst ` set acc \<union> listed_paths rec n prefix))"
  "(query_entries rec entries acc prefix = Inr snap \<longrightarrow>
      fst ` set snap = fst ` set acc \<union> listed_entries rec entries prefix)"
proof (induction rec tree acc prefix and rec entries acc prefix arbitrary: snap and snap
    rule: query_last_updates_query_entries.induct)
  case (1 rec last_updates prefix)
  show ?case by simp
next
  case (2 rec t last_updates prefix)
  show ?case by simp
next
  case (3 rec t listable entries last_updates prefix)
  then show ?case by simp
next
  case (4 rec last_updates prefix)
  show ?case by auto
next
  case (5 rec filename n rest last_updates prefix)
  show ?case
  proof (cases "rec \<and> isdir n")
    case True
    show ?thesis
    proof
      assume run: "query_entries rec ((filename, n) # rest) last_updates prefix = Inr snap"
      with True obtain mid where
        inner: "query_last_updates rec (Some n) last_updates (prefix @ filename @ ''/'') =
                  Inr mid"
        and outer: "query_entries rec rest
                      (AList.update (prefix @ filename) (getmtime n) mid) prefix = Inr snap"
        by (auto split: sum.splits)
      from "5.IH"(1) [OF True] inner
      have k1: "fst ` set mid =
          fst ` set last_updates \<union> listed_paths rec n (prefix @ filename @ ''/'')"
        by simp
      from "5.IH"(2) [of mid snap] True inner outer
      have k2: "fst ` set snap =
          fst ` set (AList.update (prefix @ filename) (getmtime n) mid)
            \<union> listed_entries rec rest prefix"
        by simp
      from k1 k2 True show "fst ` set snap =
          fst ` set last_updates \<union> listed_entries rec ((filename, n) # rest) prefix"
        by (auto simp: AList.dom_update)
    qed
  next
    case False
    show ?thesis
    proof
      assume run: "query_entries rec ((filename, n) # rest) last_updates prefix = Inr snap"
      with False have outer:
        "query_entries rec rest
           (AList.update (prefix @ filename) (getmtime n) last_updates) prefix = Inr snap"
        by (auto split: sum.splits if_splits)
      from "5.IH"(2) [of last_updates snap] False outer
      have k2: "fst ` set snap =
          fst ` set (AList.update (prefix @ filename) (getmtime n) last_updates)
            \<union> listed_entries rec rest prefix"
        by simp
      have nodir: "rec \<Longrightarrow> listed_paths rec n (prefix @ filename @ ''/'') = {}"
        using False by (cases n) auto
      from k2 nodir show "fst ` set snap =
          fst ` set last_updates \<union> listed_entries rec ((filename, n) # rest) prefix"
        by (auto simp: AList.dom_update)
    qed
  qed
qed

lemma spec_file_paths_listed:
  "spec_file_paths rec n prefix \<subseteq> listed_paths rec n prefix"
  "spec_file_entries rec entries prefix \<subseteq> listed_entries rec entries prefix"
  by (induction rec n prefix and rec entries prefix
      rule: spec_file_paths_spec_file_entries.induct) auto

lemma fst_listed_items:
  "fst ` listed_items rec n prefix = listed_paths rec n prefix"
  "fst ` listed_item_entries rec entries prefix = listed_entries rec entries prefix"
  by (induction rec n prefix and rec entries prefix
      rule: listed_items_listed_item_entries.induct) (simp_all add: image_Un)

lemma update_set_subset:
  "set (AList.update k v al) \<subseteq> insert (k, v) (set al)"
  by (induction al) auto

lemma query_items:
  "(query_last_updates rec tree acc prefix = Inr snap \<longrightarrow>
      (\<exists>n. tree = Some n \<and> set snap \<subseteq> set acc \<union> listed_items rec n prefix))"
  "(query_entries rec entries acc prefix = Inr snap \<longrightarrow>
      set snap \<subseteq> set acc \<union> listed_item_entries rec entries prefix)"
proof (induction rec tree acc prefix and rec entries acc prefix arbitrary: snap and snap
    rule: query_last_updates_query_entries.induct)
  case (1 rec last_updates prefix)
  show ?case by simp
next
  case (2 rec t last_updates prefix)
  show ?case by simp
next
  case (3 rec t listable entries last_updates prefix)
  then show ?case by simp
next
  case (4 rec last_updates prefix)
  show ?case by auto
next
  case (5 rec filename n rest last_updates prefix)
  show ?case
  proof
    assume run: "query_entries rec ((filename, n) # rest) last_updates prefix = Inr snap"
    then obtain mid where
      inner: "(if rec \<and> isdir n
               then query_last_updates rec (Some n) last_updates (prefix @ filename @ ''/'')
               else Inr last_updates) = Inr mid"
      and outer: "query_entries rec rest
                    (AList.update (prefix @ filename) (getmtime n) mid) prefix = Inr snap"
      by (auto split: sum.splits)
    have k1: "set mid \<subseteq> set last_updates \<union>
        (if rec then listed_items rec n (prefix @ filename @ ''/'') else {})"
    proof (cases "rec \<and> isdir n")
      case True
      with inner "5.IH"(1) [OF True, of mid] show ?thesis
        by simp
    next
      case False
      with inner show ?thesis
        by auto
    qed
    from "5.IH"(2) [OF inner, of snap] outer
    have k2: "set snap \<subseteq>
        set (AList.update (prefix @ filename) (getmtime n) mid)
          \<union> listed_item_entries rec rest prefix"
      by simp
    show "set snap \<subseteq>
        set last_updates \<union> listed_item_entries rec ((filename, n) # rest) prefix"
    proof
      fix x
      assume "x \<in> set snap"
      with k2 have "x \<in> set (AList.update (prefix @ filename) (getmtime n) mid) \<or>
          x \<in> listed_item_entries rec rest prefix"
        by blast
      with update_set_subset [of "prefix @ filename" "getmtime n" mid]
      have "x = (prefix @ filename, getmtime n) \<or> x \<in> set mid \<or>
          x \<in> listed_item_entries rec rest prefix"
        by blast
      with k1 have "x = (prefix @ filename, getmtime n) \<or> x \<in> set last_updates \<or>
          x \<in> (if rec then listed_items rec n (prefix @ filename @ ''/'') else {}) \<or>
          x \<in> listed_item_entries rec rest prefix"
        by blast
      then show "x \<in> set last_updates \<union>
          listed_item_entries rec ((filename, n) # rest) prefix"
        by auto
    qed
  qed
qed

lemma query_distinct:
  "(distinct (map fst acc) \<longrightarrow> query_last_updates rec tree acc prefix = Inr snap \<longrightarrow>
      distinct (map fst snap))"
  "(distinct (map fst acc) \<longrightarrow> query_entries rec entries acc prefix = Inr snap \<longrightarrow>
      distinct (map fst snap))"
proof (induction rec tree acc prefix and rec entries acc prefix arbitrary: snap and snap
    rule: query_last_updates_query_entries.induct)
  case (1 rec last_updates prefix)
  show ?case by simp
next
  case (2 rec t last_updates prefix)
  show ?case by simp
next
  case (3 rec t listable entries last_updates prefix)
  then show ?case by simp
next
  case (4 rec last_updates prefix)
  show ?case by auto
next
  case (5 rec filename n rest last_updates prefix)
  show ?case
  proof (intro impI)
    assume d: "distinct (map fst last_updates)"
    assume run: "query_entries rec ((filename, n) # rest) last_updates prefix = Inr snap"
    then obtain mid where
      inner: "(if rec \<and> isdir n
               then query_last_updates rec (Some n) last_updates (prefix @ filename @ ''/'')
               else Inr last_updates) = Inr mid"
      and outer: "query_entries rec rest
                    (AList.update (prefix @ filename) (getmtime n) mid) prefix = Inr snap"
      by (auto split: sum.splits)
    have "distinct (map fst mid)"
    proof (cases "rec \<and> isdir n")
      case True
      with inner d "5.IH"(1) [OF True, of mid] show ?thesis
        by simp
    next
      case False
      with inner d show ?thesis
        by auto
    qed
    then have "distinct (map fst (AList.update (prefix @ filename) (getmtime n) mid))"
      by (simp add: AList.distinct_update)
    with "5.IH"(2) [OF inner, of snap] outer show "distinct (map fst snap)"
      by simp
  qed
qed

text \<open>
  Claim C6, as amended. For every root and recursion setting, the keys of the snapshot
  that a successful capture returns are exactly the names listed under the root, files
  and directories alike: with \<open>recursive = False\<close> the direct children of the root,
  with \<open>recursive = True\<close> also every entry of every directory below it, each keyed by
  its path relative to the root with \<^verbatim>\<open>/\<close> as separator. Every file that the
  specification counts is among the keys. No key occurs twice, and every key is mapped
  to the modification time of an entry listed under that path, a directory to its own
  modification time; where no two listed entries share a path, as on a file system,
  the snapshot holds exactly the listed paths with their modification times.
\<close>

theorem capture_keys:
  assumes "capture rec (Some tree) = Inr snap"
  shows "fst ` set snap = listed_paths rec tree [] \<and>
         spec_file_paths rec tree [] \<subseteq> fst ` set snap \<and>
         distinct (map fst snap) \<and>
         set snap \<subseteq> listed_items rec tree [] \<and>
         (single_valued (listed_items rec tree []) \<longrightarrow>
            set snap = listed_items rec tree [])"
proof -
  from assms query_keys(1) [of rec "Some tree" "[]" "[]" snap]
  have keys: "fst ` set snap = listed_paths rec tree []"
    by (simp add: capture_def)
  from assms query_distinct(1) [of "[]" rec "Some tree" "[]" snap]
  have dist: "distinct (map fst snap)"
    by (simp add: capture_def)
  from assms query_items(1) [of rec "Some tree" "[]" "[]" snap]
  have items: "set snap \<subseteq> listed_items rec tree []"
    by (simp add: capture_def)
  have full: "set snap = listed_items rec tree []"
    if single: "single_valued (listed_items rec tree [])"
  proof
    show "set snap \<subseteq> listed_items rec tree []"
      by (rule items)
    show "listed_items rec tree [] \<subseteq> set snap"
    proof
      fix x
      assume x: "x \<in> listed_items rec tree []"
      obtain k t where kt: "x = (k, t)"
        by (cases x)
      from x have "fst x \<in> fst ` listed_items rec tree []"
        by (rule imageI)
      with keys have "k \<in> fst ` set snap"
        by (simp add: kt fst_listed_items(1))
      then obtain t' where t': "(k, t') \<in> set snap"
        by auto
      with items have "(k, t') \<in> listed_items rec tree []"
        by blast
      with single x have "t' = t"
        unfolding kt single_valued_def by blast
      with t' show "x \<in> set snap"
        by (simp add: kt)
    qed
  qed
  from keys dist items full spec_file_paths_listed(1) [of rec tree "[]"] show ?thesis
    by simp
qed

theorem capture_keys_witness:
  "set [(''d/f'', 7), (''d'', 3 :: int)] = listed_items True tree_d [] \<and>
   set [(''d'', 3 :: int)] = listed_items False tree_d [] \<and>
   fst ` set [(''d/f'', 7), (''d'', 3 :: int)] = listed_paths True tree_d [] \<and>
   fst ` set [(''d'', 3 :: int)] = listed_paths False tree_d []"
  using capture_keys [of True tree_d "[(''d/f'', 7), (''d'', 3)]"]
    capture_keys [of False tree_d "[(''d'', 3)]"]
  by (simp add: capture_def tree_d_def single_valued_def)

text \<open>
  Claim C6 as stated fails: the directory \<open>d\<close> is a key of the snapshot, in a
  recursive capture as in a non-recursive one, and it is not one of the files under
  the root.
\<close>

theorem capture_records_directory:
  "capture True (Some tree_d) = Inr [(''d/f'', 7), (''d'', 3)] \<and>
   capture False (Some tree_d) = Inr [(''d'', 3)] \<and>
   spec_file_paths True tree_d [] = {''d/f''} \<and>
   spec_file_paths False tree_d [] = {}"
  by (simp add: capture_def tree_d_def)

section \<open>Properties of the polling loop\<close>

lemma process_changes_last_updates:
  "last_updates (fst (snd (process_changes e ob chs w))) = last_updates ob"
  by (simp add: process_changes_def split: prod.splits)

lemma get_changes_new_nonempty:
  "acc \<noteq> [] \<Longrightarrow> get_changes_new new_states old_states acc \<noteq> []"
proof (induction new_states arbitrary: acc)
  case Nil
  then show ?case by simp
next
  case (Cons entry rest)
  obtain file_path update_time where entry: "entry = (file_path, update_time)"
    by (cases entry)
  from Cons.prems
  have "(if \<not> dict_contains old_states file_path
         then AList.update file_path ''CREATE'' acc else acc) \<noteq> []"
    by simp
  from Cons.IH [OF this] show ?case
    unfolding entry get_changes_new.simps .
qed

lemma get_changes_new_empty:
  "get_changes_new new_states old_states [] = [] \<Longrightarrow>
   fst ` set new_states \<subseteq> fst ` set old_states"
proof (induction new_states)
  case Nil
  show ?case by simp
next
  case (Cons entry rest)
  obtain file_path update_time where entry: "entry = (file_path, update_time)"
    by (cases entry)
  show ?case
  proof (cases "dict_contains old_states file_path")
    case True
    with Cons show ?thesis
      by (simp add: entry dict_contains_iff)
  next
    case False
    have "get_changes_new rest old_states (AList.update file_path ''CREATE'' []) \<noteq> []"
      by (rule get_changes_new_nonempty) simp
    with Cons.prems False show ?thesis
      by (simp add: entry)
  qed
qed

lemma get_changes_old_nonempty:
  "acc \<noteq> [] \<Longrightarrow> get_changes_old old_states new_states acc = Inr chs \<Longrightarrow> chs \<noteq> []"
proof (induction old_states arbitrary: acc)
  case Nil
  then show ?case by simp
next
  case (Cons entry rest)
  obtain file_path update_time where entry: "entry = (file_path, update_time)"
    by (cases entry)
  from Cons.prems(2) obtain acc' where
    step: "get_changes_old rest new_states acc' = Inr chs" and
    acc': "acc' = acc \<or> acc' = AList.update file_path ''UPDATE'' acc"
    by (auto simp: entry dict_get_def dict_contains_def Let_def
        split: option.splits if_splits)
  have "AList.update file_path ''UPDATE'' acc \<noteq> []"
    by simp
  with acc' Cons.prems(1) have "acc' \<noteq> []"
    by (elim disjE) simp_all
  with Cons.IH step show ?case
    by blast
qed

lemma get_changes_old_empty:
  "get_changes_old old_states new_states [] = Inr [] \<Longrightarrow>
   \<forall>(k, t) \<in> set old_states. \<exists>t'. map_of new_states k = Some t' \<and> t' \<le> t"
proof (induction old_states)
  case Nil
  show ?case by simp
next
  case (Cons entry rest)
  obtain file_path update_time where entry: "entry = (file_path, update_time)"
    by (cases entry)
  from Cons.prems obtain new_time where
    found: "map_of new_states file_path = Some new_time"
    by (auto simp: entry dict_get_def split: option.splits)
  show ?case
  proof (cases "update_time < new_time")
    case True
    with Cons.prems found
    have "get_changes_old rest new_states (AList.update file_path ''UPDATE'' []) = Inr []"
      by (simp add: entry dict_get_def dict_contains_def)
    with get_changes_old_nonempty [of "AList.update file_path ''UPDATE'' []" rest new_states "[]"]
    show ?thesis by simp
  next
    case False
    with Cons.prems found
    have "get_changes_old rest new_states [] = Inr []"
      by (simp add: entry dict_get_def dict_contains_def)
    with Cons.IH False found show ?thesis
      by (simp add: entry)
  qed
qed

lemma get_changes_empty:
  assumes "get_changes old_states new_states = Inr []"
  shows "fst ` set old_states = fst ` set new_states"
    and "\<forall>(k, t) \<in> set old_states. \<exists>t'. map_of new_states k = Some t' \<and> t' \<le> t"
proof -
  from assms obtain mid where
    old: "get_changes_old old_states new_states [] = Inr mid" and
    new: "get_changes_new new_states old_states mid = []"
    by (auto simp: get_changes_def split: sum.splits)
  from new get_changes_new_nonempty [of mid new_states old_states] have mid: "mid = []"
    by blast
  from old mid show older:
    "\<forall>(k, t) \<in> set old_states. \<exists>t'. map_of new_states k = Some t' \<and> t' \<le> t"
    by (simp add: get_changes_old_empty)
  from new mid have "fst ` set new_states \<subseteq> fst ` set old_states"
    by (simp add: get_changes_new_empty)
  moreover have "fst ` set old_states \<subseteq> fst ` set new_states"
  proof
    fix k
    assume "k \<in> fst ` set old_states"
    then obtain t where "(k, t) \<in> set old_states"
      by auto
    with older obtain t' where "map_of new_states k = Some t'"
      by blast
    then have "(k, t') \<in> set new_states"
      by (rule map_of_SomeD)
    then show "k \<in> fst ` set new_states"
      by (rule image_eqI [rotated]) simp
  qed
  ultimately show "fst ` set old_states = fst ` set new_states"
    by blast
qed

text \<open>
  Claim C5, as amended. After a poll tick in which the capture succeeds and the diff is
  computed, the baseline is the snapshot captured on that tick when the diff is
  non-empty (it is replaced before dispatch); when the diff is empty the baseline is
  not replaced and stays as it was. An empty diff means that both snapshots have the
  same paths and that no path has a later timestamp in the new one.
\<close>

theorem tick_baseline:
  assumes "capture (recursive ob) (fs e (captures w) (path ob)) = Inr new_updates"
    and "get_changes (last_updates ob) new_updates = Inr chs"
  shows "last_updates (fst (snd (tick e ob w))) =
           (if chs = [] then last_updates ob else new_updates) \<and>
         (chs = [] \<longrightarrow>
            fst ` set (last_updates ob) = fst ` set new_updates \<and>
            (\<forall>(k, t) \<in> set (last_updates ob).
               \<exists>t'. map_of new_updates k = Some t' \<and> t' \<le> t))"
proof (intro conjI impI)
  from assms show "last_updates (fst (snd (tick e ob w))) =
      (if chs = [] then last_updates ob else new_updates)"
    by (simp add: tick_def Let_def process_changes_last_updates)
next
  assume "chs = []"
  with assms(2) have empty: "get_changes (last_updates ob) new_updates = Inr []"
    by simp
  from get_changes_empty(1) [OF empty]
  show "fst ` set (last_updates ob) = fst ` set new_updates" .
  from get_changes_empty(2) [OF empty]
  show "\<forall>(k, t) \<in> set (last_updates ob). \<exists>t'. map_of new_updates k = Some t' \<and> t' \<le> t" .
qed

theorem tick_baseline_witness:
  "last_updates (fst (snd (tick (env_of (\<lambda>n. 0) search_all run_ok (\<lambda>n. Some (tree_a 3)))
      (observer0\<lparr>last_updates := [(''a'', 5)]\<rparr>) world0))) = [(''a'', 5)] \<and>
   last_updates (fst (snd (tick (env_of (\<lambda>n. 0) search_all run_ok (\<lambda>n. Some (tree_a 3)))
      (observer0\<lparr>last_updates := [(''a'', 1)]\<rparr>) world0))) = [(''a'', 3)]"
  using
    tick_baseline [where e = "env_of (\<lambda>n. 0) search_all run_ok (\<lambda>n. Some (tree_a 3))"
      and ob = "observer0\<lparr>last_updates := [(''a'', 5)]\<rparr>" and w = world0
      and new_updates = "[(''a'', 3)]" and chs = "[]"]
    tick_baseline [where e = "env_of (\<lambda>n. 0) search_all run_ok (\<lambda>n. Some (tree_a 3))"
      and ob = "observer0\<lparr>last_updates := [(''a'', 1)]\<rparr>" and w = world0
      and new_updates = "[(''a'', 3)]" and chs = "[(''a'', ''UPDATE'')]"]
  by (simp add: env_of_def observer0_def world0_def tree_a_def capture_def get_changes_def
      dict_get_def dict_contains_def)

text \<open>
  Claim C5 as stated fails: the file \<open>a\<close> has the timestamp 5 in the baseline and 3 on
  disk; the capture succeeds, the tick completes, and the baseline still holds 5.
\<close>

theorem tick_keeps_stale_baseline:
  "capture (recursive (observer0\<lparr>last_updates := [(''a'', 5)]\<rparr>))
     (fs (env_of (\<lambda>n. 0) search_all run_ok (\<lambda>n. Some (tree_a 3))) (captures world0)
        (path (observer0\<lparr>last_updates := [(''a'', 5)]\<rparr>))) = Inr [(''a'', 3)] \<and>
   fst (tick (env_of (\<lambda>n. 0) search_all run_ok (\<lambda>n. Some (tree_a 3)))
      (observer0\<lparr>last_updates := [(''a'', 5)]\<rparr>) world0) = None \<and>
   last_updates (fst (snd (tick (env_of (\<lambda>n. 0) search_all run_ok (\<lambda>n. Some (tree_a 3)))
      (observer0\<lparr>last_updates := [(''a'', 5)]\<rparr>) world0))) = [(''a'', 5)]"
  by (simp add: tick_def env_of_def observer0_def world0_def tree_a_def capture_def
      get_changes_def dict_get_def dict_contains_def)

lemma tick_capture_fails:
  assumes "capture (recursive ob) (fs e (captures w) (path ob)) = Inl err"
  shows "tick e ob w = (Some err, ob, w\<lparr>captures := Suc (captures w)\<rparr>)"
  using assms by (simp add: tick_def)

lemma process_loop_raises:
  assumes "running ob" and "\<not> interrupt e (loop_tests w)"
    and "tick e ob (w\<lparr>loop_tests := Suc (loop_tests w)\<rparr>) = (Some err, ob', w')"
  shows "process_loop (Suc fuel) e ob w = Some (Some err, ob', w')"
  using assms by simp

text \<open>
  Claim C8, as amended. A failure of the snapshot capture during a tick of the running
  loop is not caught: the tick ends with that error, and so does the polling loop. The
  observer, and with it the baseline snapshot, is unchanged, nothing is logged, and no
  later tick runs.
\<close>

theorem process_loop_capture_failure:
  assumes "running ob" and "\<not> interrupt e (loop_tests w)"
    and "capture (recursive ob) (fs e (captures w) (path ob)) = Inl err"
  shows "process_loop (Suc fuel) e ob w =
           Some (Some err, ob,
                 w\<lparr>loop_tests := Suc (loop_tests w), captures := Suc (captures w)\<rparr>)"
proof -
  from assms(3)
  have "capture (recursive ob)
          (fs e (captures (w\<lparr>loop_tests := Suc (loop_tests w)\<rparr>)) (path ob)) = Inl err"
    by simp
  then have "tick e ob (w\<lparr>loop_tests := Suc (loop_tests w)\<rparr>) =
      (Some err, ob, w\<lparr>loop_tests := Suc (loop_tests w), captures := Suc (captures w)\<rparr>)"
    by (simp add: tick_capture_fails)
  with assms(1,2) show ?thesis
    by (rule process_loop_raises)
qed

theorem process_loop_capture_failure_witness:
  "process_loop (Suc 2)
     (env_of (\<lambda>n. 0) search_all run_ok (\<lambda>n. if n = 0 then None else Some (tree_a 3)))
     (observer0\<lparr>running := True\<rparr>) world0 =
   Some (Some FileNotFoundError, observer0\<lparr>running := True\<rparr>,
         world0\<lparr>loop_tests := Suc (loop_tests world0), captures := Suc (captures world0)\<rparr>)"
  using process_loop_capture_failure
    [where ob = "observer0\<lparr>running := True\<rparr>" and w = world0 and fuel = 2
       and err = FileNotFoundError
       and e = "env_of (\<lambda>n. 0) search_all run_ok
                  (\<lambda>n. if n = 0 then None else Some (tree_a 3))"]
  by (simp add: env_of_def observer0_def world0_def capture_def)

text \<open>
  Claim C8 as stated fails: the watched directory is missing at the first capture and
  present from the second on; with fuel for three ticks the loop has ended after the
  first one, with the error.
\<close>

theorem process_loop_stops_on_capture_failure:
  "process_loop 3
     (env_of (\<lambda>n. 0) search_all run_ok (\<lambda>n. if n = 0 then None else Some (tree_a 3)))
     (observer0\<lparr>running := True\<rparr>) world0 =
   Some (Some FileNotFoundError, observer0\<lparr>running := True\<rparr>,
         world0\<lparr>loop_tests := 1, captures := 1\<rparr>)"
  by (simp add: numeral_3_eq_3 tick_def env_of_def observer0_def world0_def capture_def)

section \<open>Launch failures\<close>

lemma process_update_launch_fails:
  assumes "subprocess_run e (script h) p = Inl err"
    and "last_file h \<noteq> Str p \<or> 1 \<le> clock e (clock_reads w) - last_update h"
  shows "fst (process_update e h (Str p) (Enum a) w) = Some err"
    and "log_lines (snd (snd (process_update e h (Str p) (Enum a) w))) =
           log_lines w @
             [(case log_textbox h of None \<Rightarrow> Stdout | Some tb \<Rightarrow> Textbox tb,
               ''File '' @ Action_name a @ '': '' @ p)]"
  using assms
  by (auto simp: process_update_def debounced_def time_time_def Let_def log_msg_frame
      log_msg_lines launch_def eq_commute [of "Str p" "last_file h"] split: prod.splits)

lemma process_update_launch_fails_state:
  assumes "subprocess_run e (script h) p = Inl err"
    and "last_file h \<noteq> Str p \<or> 1 \<le> clock e (clock_reads w) - last_update h"
  shows "run_calls (snd (snd (process_update e h (Str p) (Enum a) w))) =
           run_calls w @ [(script h, p)]"
    and "fst (snd (process_update e h (Str p) (Enum a) w)) =
           h\<lparr>last_file := Str p,
             last_update := clock e (if last_file h = Str p then Suc (clock_reads w)
                                     else clock_reads w)\<rparr>"
  using assms(2)
  by (simp_all add: process_update_fires(1) process_update_fired_state(1))

lemma process_handlers_append:
  "process_handlers e file_path action (hs1 @ hs2) w =
     (case process_handlers e file_path action hs1 w of
        (Some err, hs1', w1) \<Rightarrow> (Some err, hs1' @ hs2, w1)
      | (None, hs1', w1) \<Rightarrow>
          (case process_handlers e file_path action hs2 w1 of
             (r, hs2', w2) \<Rightarrow> (r, hs1' @ hs2', w2)))"
proof (induction hs1 arbitrary: w)
  case Nil
  show ?case by (simp split: prod.splits)
next
  case (Cons entry rest)
  obtain pattern handler where entry: "entry = (pattern, handler)"
    by (cases entry)
  show ?case
    by (simp add: entry Cons.IH split: sum.splits prod.splits option.splits)
qed

lemma process_changes_loop_append:
  "process_changes_loop e (chs1 @ chs2) hs w =
     (case process_changes_loop e chs1 hs w of
        (Some err, hs', w') \<Rightarrow> (Some err, hs', w')
      | (None, hs', w') \<Rightarrow> process_changes_loop e chs2 hs' w')"
proof (induction chs1 arbitrary: hs w)
  case Nil
  show ?case by simp
next
  case (Cons entry rest)
  obtain file_path action where entry: "entry = (file_path, action)"
    by (cases entry)
  show ?case
    by (simp add: entry Cons.IH split: prod.splits option.splits)
qed

lemma process_handlers_raises_at:
  assumes "process_handlers e file_path action hs1 w = (None, hs1', w1)"
    and "re_search e pattern file_path = Inr True"
    and "Str action \<in> set (actions handler)"
    and "call_process_update e handler [Str file_path] w1 = (Some err, handler', w')"
  shows "process_handlers e file_path action (hs1 @ (pattern, handler) # rest) w =
           (Some err, hs1' @ (pattern, handler') # rest, w')"
  using assms by (simp add: process_handlers_append)

lemma process_changes_loop_raises_at:
  assumes "process_changes_loop e chs1 hs w = (None, hs1, w1)"
    and "process_handlers e file_path action hs1 w1 = (Some err, hs', w')"
  shows "process_changes_loop e (chs1 @ (file_path, action) # later) hs w = (Some err, hs', w')"
  using assms by (simp add: process_changes_loop_append)

lemma tick_dispatch_raises:
  assumes "capture (recursive ob) (fs e (captures w) (path ob)) = Inr new_updates"
    and "get_changes (last_updates ob) new_updates = Inr chs"
    and "chs \<noteq> []"
    and "process_changes_loop e chs (handlers ob)
           (py_print ''changes detected'' (w\<lparr>captures := Suc (captures w)\<rparr>)) =
           (Some err, hs', w')"
  shows "tick e ob w = (Some err, ob\<lparr>last_updates := new_updates, handlers := hs'\<rparr>, w')"
  using assms by (simp add: tick_def process_changes_def)

text \<open>
  Claim C7, as amended. A failure to launch a command is handled nowhere. In
  \<open>process_update\<close> the exception of \<^verbatim>\<open>subprocess.run\<close> propagates to the caller once
  the line \<^verbatim>\<open>File <ACTION>: <path>\<close> has been logged and the path and the clock
  reading have been recorded as the handler's debounce state; nothing is logged about
  the failure. An exception raised by the invocation of a handler, at whatever place
  among the handlers and the changed paths, ends \<open>process_changes\<close> at once: the
  handlers and changed paths after it are not processed. The tick ends with that
  exception, and so does the polling loop, so that no later tick runs.
\<close>

theorem launch_failure_propagates:
  "(subprocess_run e (script h) p = Inl err \<and>
      (last_file h \<noteq> Str p \<or> 1 \<le> clock e (clock_reads w) - last_update h) \<longrightarrow>
        fst (process_update e h (Str p) (Enum a) w) = Some err \<and>
        fst (snd (process_update e h (Str p) (Enum a) w)) =
          h\<lparr>last_file := Str p,
            last_update := clock e (if last_file h = Str p then Suc (clock_reads w)
                                    else clock_reads w)\<rparr> \<and>
        run_calls (snd (snd (process_update e h (Str p) (Enum a) w))) =
          run_calls w @ [(script h, p)] \<and>
        log_lines (snd (snd (process_update e h (Str p) (Enum a) w))) =
          log_lines w @
            [(case log_textbox h of None \<Rightarrow> Stdout | Some tb \<Rightarrow> Textbox tb,
              ''File '' @ Action_name a @ '': '' @ p)]) \<and>
   (process_handlers e file_path action pre wa = (None, pre', wam) \<and>
      re_search e pattern file_path = Inr True \<and> Str action \<in> set (actions handler) \<and>
      call_process_update e handler [Str file_path] wam = (Some err, handler', wa') \<longrightarrow>
        process_handlers e file_path action (pre @ (pattern, handler) # rest) wa =
          (Some err, pre' @ (pattern, handler') # rest, wa')) \<and>
   (process_changes_loop e earlier hs wb = (None, hsb, wbm) \<and>
      process_handlers e file_path action hsb wbm = (Some err, hsb', wb') \<longrightarrow>
        process_changes_loop e (earlier @ (file_path, action) # later) hs wb =
          (Some err, hsb', wb')) \<and>
   (capture (recursive ob) (fs e (captures wc) (path ob)) = Inr new_updates \<and>
      get_changes (last_updates ob) new_updates = Inr chs \<and> chs \<noteq> [] \<and>
      process_changes_loop e chs (handlers ob)
        (py_print ''changes detected'' (wc\<lparr>captures := Suc (captures wc)\<rparr>)) =
        (Some err, hsc, wc') \<longrightarrow>
        tick e ob wc = (Some err, ob\<lparr>last_updates := new_updates, handlers := hsc\<rparr>, wc')) \<and>
   (running ob \<and> \<not> interrupt e (loop_tests wd) \<and>
      tick e ob (wd\<lparr>loop_tests := Suc (loop_tests wd)\<rparr>) = (Some err, ob', wd') \<longrightarrow>
        process_loop (Suc fuel) e ob wd = Some (Some err, ob', wd'))"
proof (intro conjI impI)
  assume fails: "subprocess_run e (script h) p = Inl err \<and>
      (last_file h \<noteq> Str p \<or> 1 \<le> clock e (clock_reads w) - last_update h)"
  then have run: "subprocess_run e (script h) p = Inl err"
    and fire: "last_file h \<noteq> Str p \<or> 1 \<le> clock e (clock_reads w) - last_update h"
    by blast+
  from process_update_launch_fails(1) [OF run fire]
  show "fst (process_update e h (Str p) (Enum a) w) = Some err" .
  from process_update_launch_fails_state(2) [OF run fire]
  show "fst (snd (process_update e h (Str p) (Enum a) w)) =
      h\<lparr>last_file := Str p,
        last_update := clock e (if last_file h = Str p then Suc (clock_reads w)
                                else clock_reads w)\<rparr>" .
  from process_update_launch_fails_state(1) [OF run fire]
  show "run_calls (snd (snd (process_update e h (Str p) (Enum a) w))) =
      run_calls w @ [(script h, p)]" .
  from process_update_launch_fails(2) [OF run fire]
  show "log_lines (snd (snd (process_update e h (Str p) (Enum a) w))) =
      log_lines w @
        [(case log_textbox h of None \<Rightarrow> Stdout | Some tb \<Rightarrow> Textbox tb,
          ''File '' @ Action_name a @ '': '' @ p)]" .
next
  assume "process_handlers e file_path action pre wa = (None, pre', wam) \<and>
      re_search e pattern file_path = Inr True \<and> Str action \<in> set (actions handler) \<and>
      call_process_update e handler [Str file_path] wam = (Some err, handler', wa')"
  then have "process_handlers e file_path action pre wa = (None, pre', wam)"
    and "re_search e pattern file_path = Inr True"
    and "Str action \<in> set (actions handler)"
    and "call_process_update e handler [Str file_path] wam = (Some err, handler', wa')"
    by blast+
  then show "process_handlers e file_path action (pre @ (pattern, handler) # rest) wa =
      (Some err, pre' @ (pattern, handler') # rest, wa')"
    by (rule process_handlers_raises_at)
next
  assume "process_changes_loop e earlier hs wb = (None, hsb, wbm) \<and>
      process_handlers e file_path action hsb wbm = (Some err, hsb', wb')"
  then have "process_changes_loop e earlier hs wb = (None, hsb, wbm)"
    and "process_handlers e file_path action hsb wbm = (Some err, hsb', wb')"
    by blast+
  then show "process_changes_loop e (earlier @ (file_path, action) # later) hs wb =
      (Some err, hsb', wb')"
    by (rule process_changes_loop_raises_at)
next
  assume "capture (recursive ob) (fs e (captures wc) (path ob)) = Inr new_updates \<and>
      get_changes (last_updates ob) new_updates = Inr chs \<and> chs \<noteq> [] \<and>
      process_changes_loop e chs (handlers ob)
        (py_print ''changes detected'' (wc\<lparr>captures := Suc (captures wc)\<rparr>)) =
        (Some err, hsc, wc')"
  then have "capture (recursive ob) (fs e (captures wc) (path ob)) = Inr new_updates"
    and "get_changes (last_updates ob) new_updates = Inr chs" and "chs \<noteq> []"
    and "process_changes_loop e chs (handlers ob)
        (py_print ''changes detected'' (wc\<lparr>captures := Suc (captures wc)\<rparr>)) =
        (Some err, hsc, wc')"
    by blast+
  then show "tick e ob wc =
      (Some err, ob\<lparr>last_updates := new_updates, handlers := hsc\<rparr>, wc')"
    by (rule tick_dispatch_raises)
next
  assume "running ob \<and> \<not> interrupt e (loop_tests wd) \<and>
      tick e ob (wd\<lparr>loop_tests := Suc (loop_tests wd)\<rparr>) = (Some err, ob', wd')"
  then have "running ob" and "\<not> interrupt e (loop_tests wd)"
    and "tick e ob (wd\<lparr>loop_tests := Suc (loop_tests wd)\<rparr>) = (Some err, ob', wd')"
    by blast+
  then show "process_loop (Suc fuel) e ob wd = Some (Some err, ob', wd')"
    by (rule process_loop_raises)
qed

theorem launch_failure_propagates_witness:
  "fst (process_update failing_env (handler0 PyNone 0) (Str ''a'') (Enum UPDATE) world0) =
     Some FileNotFoundError \<and>
   fst (snd (process_update failing_env (handler0 PyNone 0) (Str ''a'') (Enum UPDATE) world0)) =
     handler0 (Str ''a'') 5 \<and>
   process_handlers failing_env ''a'' ''CREATE''
      [(''x'', handler0 PyNone 0), (''a'', raising_handler), (''b'', raising_handler)] world0 =
     (Some TypeError,
      [(''x'', handler0 PyNone 0), (''a'', raising_handler), (''b'', raising_handler)], world0) \<and>
   process_changes_loop failing_env
      [(''z'', ''DELETE''), (''a'', ''CREATE''), (''b'', ''CREATE'')]
      [(''a'', raising_handler)] world0 =
     (Some TypeError, [(''a'', raising_handler)], world0) \<and>
   tick failing_env (observer0\<lparr>handlers := [(''a'', raising_handler)]\<rparr>) world0 =
     (Some TypeError,
      observer0\<lparr>last_updates := [(''a'', 3)], handlers := [(''a'', raising_handler)]\<rparr>,
      world0\<lparr>log_lines := [(Stdout, ''changes detected'')], captures := 1\<rparr>) \<and>
   process_loop (Suc 2) failing_env
      (observer0\<lparr>running := True, handlers := [(''a'', raising_handler)]\<rparr>) world0 =
     Some (Some TypeError,
           observer0\<lparr>running := True, last_updates := [(''a'', 3)],
             handlers := [(''a'', raising_handler)]\<rparr>,
           world0\<lparr>log_lines := [(Stdout, ''changes detected'')], captures := 1,
             loop_tests := 1\<rparr>)"
  using
    launch_failure_propagates
      [where e = failing_env and h = "handler0 PyNone 0" and p = "''a''"
         and err = FileNotFoundError and w = world0 and a = UPDATE]
    launch_failure_propagates
      [where e = failing_env and err = TypeError and file_path = "''a''"
         and action = "''CREATE''" and pre = "[(''x'', handler0 PyNone 0)]"
         and pre' = "[(''x'', handler0 PyNone 0)]" and wa = world0 and wam = world0
         and wa' = world0 and pattern = "''a''" and handler = raising_handler
         and handler' = raising_handler and rest = "[(''b'', raising_handler)]"
         and earlier = "[(''z'', ''DELETE'')]" and hs = "[(''a'', raising_handler)]"
         and hsb = "[(''a'', raising_handler)]" and hsb' = "[(''a'', raising_handler)]"
         and wb = world0 and wbm = world0 and wb' = world0
         and later = "[(''b'', ''CREATE'')]"]
    launch_failure_propagates
      [where e = failing_env and err = TypeError
         and ob = "observer0\<lparr>handlers := [(''a'', raising_handler)]\<rparr>" and wc = world0
         and new_updates = "[(''a'', 3)]" and chs = "[(''a'', ''CREATE'')]"
         and hsc = "[(''a'', raising_handler)]"
         and wc' = "world0\<lparr>log_lines := [(Stdout, ''changes detected'')], captures := 1\<rparr>"]
    launch_failure_propagates
      [where e = failing_env and err = TypeError
         and ob = "observer0\<lparr>running := True, handlers := [(''a'', raising_handler)]\<rparr>"
         and wd = world0
         and ob' = "observer0\<lparr>running := True, last_updates := [(''a'', 3)],
             handlers := [(''a'', raising_handler)]\<rparr>"
         and wd' = "world0\<lparr>log_lines := [(Stdout, ''changes detected'')], captures := 1,
             loop_tests := 1\<rparr>"
         and fuel = 2]
  by (simp add: failing_env_def raising_handler_def env_of_def search_all_def
      run_missing_def handler0_def observer0_def world0_def tree_a_def tick_def capture_def
      get_changes_def dict_get_def dict_contains_def process_changes_def py_print_def)

text \<open>
  Claim C7 as stated fails: the script of the handler cannot be launched, and
  \<open>process_update\<close> ends with \<^verbatim>\<open>FileNotFoundError\<close>; the only line logged is the one
  written before the launch.
\<close>

theorem launch_failure_escapes:
  "subprocess_run (env_of (\<lambda>n. 5) search_all run_missing (\<lambda>n. None)) ''convert.sh'' ''a.pdf'' =
     Inl FileNotFoundError \<and>
   process_update (env_of (\<lambda>n. 5) search_all run_missing (\<lambda>n. None))
      (handler0 PyNone 0) (Str ''a.pdf'') (Enum UPDATE) world0 =
     (Some FileNotFoundError, handler0 (Str ''a.pdf'') 5,
      world0\<lparr>clock_reads := 1, log_lines := [(Stdout, ''File UPDATE: a.pdf'')],
        run_calls := [(''convert.sh'', ''a.pdf'')]\<rparr>)"
  by (simp add: process_update_def debounced_def time_time_def launch_def log_msg_def
      py_print_def env_of_def run_missing_def handler0_def world0_def)

section \<open>Properties of start\<close>

text \<open>
  Claim C9, as amended. \<open>start\<close> has no guard: whatever the state of the session,
  running or not, every call sets \<open>running\<close>, starts one more thread on the polling
  loop and stores its handle, so that \<open>n\<close> calls start \<open>n\<close> threads.
\<close>

theorem start_unguarded:
  "running (fst (start ob w)) \<and>
   thread (fst (start ob w)) = Some (threads w) \<and>
   threads (snd (start ob w)) = Suc (threads w) \<and>
   threads (snd (((\<lambda>(ob, w). start ob w) ^^ n) (ob, w))) = threads w + n"
proof -
  have "threads (snd (((\<lambda>(ob, w). start ob w) ^^ n) (ob, w))) = threads w + n"
    by (induction n) (auto simp: start_def split: prod.splits)
  then show ?thesis
    by (simp add: start_def)
qed

text \<open>
  Claim C9 as stated fails: a second call of \<open>start\<close>, on a session that is running,
  neither fails nor leaves the state as it was: a second thread is started.
\<close>

theorem start_twice_two_threads:
  "running (fst (start observer0 world0)) \<and>
   start (fst (start observer0 world0)) (snd (start observer0 world0)) =
     (observer0\<lparr>running := True, thread := Some 1\<rparr>, world0\<lparr>threads := 2\<rparr>)"
  by (simp add: start_def observer0_def world0_def)

section \<open>Properties of the handler registry\<close>

lemma update_length_known:
  "k \<in> fst ` set al \<Longrightarrow> length (AList.update k v al) = length al"
  by (induction al) auto

lemma filter_key_le1:
  "distinct (map fst hs) \<Longrightarrow> length (filter (\<lambda>entry. fst entry = k) hs) \<le> 1"
proof (induction hs)
  case Nil
  show ?case by simp
next
  case (Cons entry rest)
  show ?case
  proof (cases "fst entry = k")
    case True
    with Cons.prems have "k \<notin> fst ` set rest"
      by auto
    then have "filter (\<lambda>entry. fst entry = k) rest = []"
      by (auto simp: filter_empty_conv)
    with True show ?thesis
      by simp
  next
    case False
    with Cons show ?thesis
      by simp
  qed
qed

lemma add_handler_distinct:
  "distinct (map fst (handlers ob)) \<Longrightarrow>
   distinct (map fst (handlers (add_handler pattern handler ob)))"
  by (simp add: add_handler_def AList.distinct_update)

lemma registrations_distinct:
  "distinct (map fst (handlers ob)) \<Longrightarrow>
   distinct (map fst (handlers (fold (\<lambda>(p, h). add_handler p h) regs ob)))"
proof (induction regs arbitrary: ob)
  case Nil
  then show ?case by simp
next
  case (Cons reg regs)
  obtain p h where reg: "reg = (p, h)"
    by (cases reg)
  from Cons.prems have "distinct (map fst (handlers (add_handler p h ob)))"
    by (rule add_handler_distinct)
  from Cons.IH [OF this] show ?case
    by (simp add: reg)
qed

lemma read_handlers_loop_distinct:
  "distinct (map fst hs) \<Longrightarrow> fst (read_handlers_loop e cfg tb hs w) = Inr hs' \<Longrightarrow>
   distinct (map fst hs')"
proof (induction cfg arbitrary: hs w)
  case Nil
  then show ?case by simp
next
  case (Cons d rest)
  from Cons.prems(2) obtain acts where acts: "read_actions (cfg_actions d) [] = Inr acts"
    by (cases "read_actions (cfg_actions d) []") simp_all
  obtain handler w1 where init: "ChangeHandler_init e acts (cfg_script d) tb w = (handler, w1)"
    by (cases "ChangeHandler_init e acts (cfg_script d) tb w")
  from Cons.prems(1) have "distinct (map fst (AList.update (cfg_pattern d) handler hs))"
    by (simp add: AList.distinct_update)
  moreover from Cons.prems(2) acts init
  have "fst (read_handlers_loop e rest tb (AList.update (cfg_pattern d) handler hs) w1) = Inr hs'"
    by simp
  ultimately show ?case
    by (rule Cons.IH)
qed

lemma read_handlers_distinct:
  "fst (read_handlers e conf tb w) = Inr hs \<Longrightarrow> distinct (map fst hs)"
proof (cases conf)
  case None
  assume "fst (read_handlers e conf tb w) = Inr hs"
  with None show ?thesis
    by (simp add: read_handlers_def)
next
  case (Some cfg)
  assume "fst (read_handlers e conf tb w) = Inr hs"
  with Some have "fst (read_handlers_loop e cfg tb [] w) = Inr hs"
    by (simp add: read_handlers_def)
  with read_handlers_loop_distinct [of "[]" e cfg tb w hs] show ?thesis
    by simp
qed

lemma read_handlers_loop_append:
  "read_handlers_loop e (cfg1 @ cfg2) tb hs w =
     (case read_handlers_loop e cfg1 tb hs w of
        (Inl err, w1) \<Rightarrow> (Inl err, w1)
      | (Inr hs1, w1) \<Rightarrow> read_handlers_loop e cfg2 tb hs1 w1)"
proof (induction cfg1 arbitrary: hs w)
  case Nil
  show ?case by simp
next
  case (Cons d rest)
  show ?case
    by (simp add: Cons.IH split: sum.splits prod.splits)
qed

lemma read_handlers_loop_untouched:
  "p \<notin> cfg_pattern ` set cfg \<Longrightarrow> fst (read_handlers_loop e cfg tb hs w) = Inr hs' \<Longrightarrow>
   map_of hs' p = map_of hs p"
proof (induction cfg arbitrary: hs w)
  case Nil
  then show ?case by simp
next
  case (Cons d rest)
  from Cons.prems(2) obtain acts where acts: "read_actions (cfg_actions d) [] = Inr acts"
    by (cases "read_actions (cfg_actions d) []") simp_all
  obtain handler w1 where init: "ChangeHandler_init e acts (cfg_script d) tb w = (handler, w1)"
    by (cases "ChangeHandler_init e acts (cfg_script d) tb w")
  from Cons.prems(1) have p: "p \<noteq> cfg_pattern d" and rest: "p \<notin> cfg_pattern ` set rest"
    by auto
  from Cons.prems(2) acts init
  have "fst (read_handlers_loop e rest tb (AList.update (cfg_pattern d) handler hs) w1) = Inr hs'"
    by simp
  from Cons.IH [OF rest this] p show ?case
    by (simp add: AList.update_conv')
qed

lemma read_handlers_loop_clock:
  "read_handlers_loop e cfg tb hs w = (Inr hs', w') \<Longrightarrow>
   clock_reads w' = clock_reads w + length cfg"
proof (induction cfg arbitrary: hs w)
  case Nil
  then show ?case by simp
next
  case (Cons d rest)
  from Cons.prems obtain acts where acts: "read_actions (cfg_actions d) [] = Inr acts"
    by (cases "read_actions (cfg_actions d) []") simp_all
  obtain handler w1 where init: "ChangeHandler_init e acts (cfg_script d) tb w = (handler, w1)"
    by (cases "ChangeHandler_init e acts (cfg_script d) tb w")
  then have w1: "clock_reads w1 = Suc (clock_reads w)"
    by (auto simp: ChangeHandler_init_def time_time_def)
  from Cons.prems acts init
  have "read_handlers_loop e rest tb (AList.update (cfg_pattern d) handler hs) w1 = (Inr hs', w')"
    by simp
  from Cons.IH [OF this] w1 show ?case
    by simp
qed

lemma read_handlers_last_wins:
  assumes "fst (read_handlers e (Some (before @ d # after)) tb w) = Inr hs"
    and "cfg_pattern d \<notin> cfg_pattern ` set after"
  shows "\<exists>acts. read_actions (cfg_actions d) [] = Inr acts \<and>
           map_of hs (cfg_pattern d) =
             Some \<lparr>actions = acts, log_textbox = tb, last_file = PyNone,
                    last_update = clock e (clock_reads w + length before),
                    script = cfg_script d\<rparr>"
proof -
  from assms(1)
  have run: "fst (read_handlers_loop e (before @ d # after) tb [] w) = Inr hs"
    by (simp add: read_handlers_def)
  obtain r1 w1 where first: "read_handlers_loop e before tb [] w = (r1, w1)"
    by (cases "read_handlers_loop e before tb [] w")
  from run first obtain hs1 where r1: "r1 = Inr hs1"
    by (cases r1) (simp_all add: read_handlers_loop_append)
  from first r1 have w1: "clock_reads w1 = clock_reads w + length before"
    by (simp add: read_handlers_loop_clock)
  from run first r1 have step: "fst (read_handlers_loop e (d # after) tb hs1 w1) = Inr hs"
    by (simp add: read_handlers_loop_append)
  then obtain acts where acts: "read_actions (cfg_actions d) [] = Inr acts"
    by (cases "read_actions (cfg_actions d) []") simp_all
  define handler where
    "handler = \<lparr>actions = acts, log_textbox = tb, last_file = PyNone,
                  last_update = clock e (clock_reads w + length before),
                  script = cfg_script d\<rparr>"
  from w1 have init: "ChangeHandler_init e acts (cfg_script d) tb w1 =
      (handler, w1\<lparr>clock_reads := Suc (clock_reads w1)\<rparr>)"
    by (simp add: ChangeHandler_init_def time_time_def handler_def)
  from step acts init
  have "fst (read_handlers_loop e after tb (AList.update (cfg_pattern d) handler hs1)
          (w1\<lparr>clock_reads := Suc (clock_reads w1)\<rparr>)) = Inr hs"
    by simp
  from read_handlers_loop_untouched [OF assms(2) this]
  have "map_of hs (cfg_pattern d) = Some handler"
    by (simp add: AList.update_conv')
  with acts show ?thesis
    by (simp add: handler_def)
qed

lemma read_handlers_unlisted:
  assumes "fst (read_handlers e (Some cfg) tb w) = Inr hs"
    and "p \<notin> cfg_pattern ` set cfg"
  shows "map_of hs p = None"
proof -
  from assms(1) have "fst (read_handlers_loop e cfg tb [] w) = Inr hs"
    by (simp add: read_handlers_def)
  from read_handlers_loop_untouched [OF assms(2) this] show ?thesis
    by simp
qed

lemma add_handler_other:
  "q \<noteq> pattern \<Longrightarrow>
   map_of (handlers (add_handler pattern handler ob)) q = map_of (handlers ob) q"
  by (simp add: add_handler_def AList.update_conv')

lemma registrations_untouched:
  "q \<notin> fst ` set regs \<Longrightarrow>
   map_of (handlers (fold (\<lambda>(p, h). add_handler p h) regs ob)) q = map_of (handlers ob) q"
proof (induction regs arbitrary: ob)
  case Nil
  show ?case by simp
next
  case (Cons reg regs)
  obtain p h where reg: "reg = (p, h)"
    by (cases reg)
  from Cons.prems have "q \<noteq> p" and "q \<notin> fst ` set regs"
    by (auto simp: reg)
  with Cons.IH [of "add_handler p h ob"] show ?case
    by (simp add: reg add_handler_other)
qed

lemma registrations_last_wins:
  assumes "pattern \<notin> fst ` set post"
  shows "map_of (handlers (fold (\<lambda>(p, h). add_handler p h)
            (pre @ (pattern, handler) # post) ob)) pattern = Some handler"
proof -
  have "map_of (handlers (fold (\<lambda>(p, h). add_handler p h)
            (pre @ (pattern, handler) # post) ob)) pattern =
        map_of (handlers (add_handler pattern handler
            (fold (\<lambda>(p, h). add_handler p h) pre ob))) pattern"
    using registrations_untouched [OF assms] by simp
  then show ?thesis
    by (simp add: add_handler_def AList.update_conv')
qed

text \<open>
  Claim C10. The registry maps each pattern to at most one rule. From a registry with
  distinct patterns, every sequence of registrations by \<open>add_handler\<close> leaves the
  patterns distinct, so that at most one rule, and hence at most one handler for a
  change, exists per pattern; registering under a pattern stores the new handler there
  and leaves the other patterns as they were, and when the pattern was already
  registered the number of rules stays the same, the previous handler being replaced:
  after a sequence of registrations a pattern holds the handler registered last under
  it. Configuration loading does the same: the registry that \<open>read_handlers\<close> builds
  has distinct patterns, maps the pattern of an entry that no later entry repeats to
  the handler built from that entry, and has no rule for a pattern that no entry names.
\<close>

theorem registry_pattern_unique:
  assumes "distinct (map fst (handlers ob))"
  shows "distinct (map fst (handlers (fold (\<lambda>(p, h). add_handler p h) regs ob))) \<and>
         length (filter (\<lambda>entry. fst entry = pattern)
                   (handlers (fold (\<lambda>(p, h). add_handler p h) regs ob))) \<le> 1 \<and>
         map_of (handlers (add_handler pattern handler ob)) pattern = Some handler \<and>
         (q \<noteq> pattern \<longrightarrow>
            map_of (handlers (add_handler pattern handler ob)) q = map_of (handlers ob) q) \<and>
         (pattern \<in> fst ` set (handlers ob) \<longrightarrow>
            length (handlers (add_handler pattern handler ob)) = length (handlers ob)) \<and>
         (pattern \<notin> fst ` set post \<longrightarrow>
            map_of (handlers (fold (\<lambda>(p, h). add_handler p h)
              (pre @ (pattern, handler) # post) ob)) pattern = Some handler) \<and>
         (fst (read_handlers e conf tb w) = Inr hs \<longrightarrow>
            distinct (map fst hs) \<and> length (filter (\<lambda>entry. fst entry = pattern) hs) \<le> 1) \<and>
         (fst (read_handlers e (Some (cfg_pre @ d # cfg_post)) tb w) = Inr hs \<and>
            cfg_pattern d \<notin> cfg_pattern ` set cfg_post \<longrightarrow>
            (\<exists>acts. read_actions (cfg_actions d) [] = Inr acts \<and>
               map_of hs (cfg_pattern d) =
                 Some \<lparr>actions = acts, log_textbox = tb, last_file = PyNone,
                        last_update = clock e (clock_reads w + length cfg_pre),
                        script = cfg_script d\<rparr>)) \<and>
         (fst (read_handlers e (Some cfg) tb w) = Inr hs \<and> q \<notin> cfg_pattern ` set cfg \<longrightarrow>
            map_of hs q = None)"
proof (intro conjI impI)
  from assms show d: "distinct (map fst (handlers (fold (\<lambda>(p, h). add_handler p h) regs ob)))"
    by (rule registrations_distinct)
  then show "length (filter (\<lambda>entry. fst entry = pattern)
      (handlers (fold (\<lambda>(p, h). add_handler p h) regs ob))) \<le> 1"
    by (rule filter_key_le1)
  show "map_of (handlers (add_handler pattern handler ob)) pattern = Some handler"
    by (simp add: add_handler_def AList.update_conv')
next
  assume "q \<noteq> pattern"
  then show "map_of (handlers (add_handler pattern handler ob)) q = map_of (handlers ob) q"
    by (rule add_handler_other)
next
  assume "pattern \<in> fst ` set (handlers ob)"
  then show "length (handlers (add_handler pattern handler ob)) = length (handlers ob)"
    by (simp add: add_handler_def update_length_known)
next
  assume "pattern \<notin> fst ` set post"
  then show "map_of (handlers (fold (\<lambda>(p, h). add_handler p h)
      (pre @ (pattern, handler) # post) ob)) pattern = Some handler"
    by (rule registrations_last_wins)
next
  assume "fst (read_handlers e conf tb w) = Inr hs"
  then show d: "distinct (map fst hs)"
    by (rule read_handlers_distinct)
  then show "length (filter (\<lambda>entry. fst entry = pattern) hs) \<le> 1"
    by (rule filter_key_le1)
next
  assume "fst (read_handlers e (Some (cfg_pre @ d # cfg_post)) tb w) = Inr hs \<and>
      cfg_pattern d \<notin> cfg_pattern ` set cfg_post"
  then have "fst (read_handlers e (Some (cfg_pre @ d # cfg_post)) tb w) = Inr hs"
    and "cfg_pattern d \<notin> cfg_pattern ` set cfg_post"
    by blast+
  then show "\<exists>acts. read_actions (cfg_actions d) [] = Inr acts \<and>
      map_of hs (cfg_pattern d) =
        Some \<lparr>actions = acts, log_textbox = tb, last_file = PyNone,
               last_update = clock e (clock_reads w + length cfg_pre),
               script = cfg_script d\<rparr>"
    by (rule read_handlers_last_wins)
next
  assume "fst (read_handlers e (Some cfg) tb w) = Inr hs \<and> q \<notin> cfg_pattern ` set cfg"
  then have "fst (read_handlers e (Some cfg) tb w) = Inr hs"
    and "q \<notin> cfg_pattern ` set cfg"
    by blast+
  then show "map_of hs q = None"
    by (rule read_handlers_unlisted)
qed

theorem registry_pattern_unique_witness:
  "map (\<lambda>(p, h). (p, script h))
     (handlers (add_handler ''draft'' (handler0 PyNone 0)
        (observer0\<lparr>handlers := routing_rules 0 0\<rparr>))) =
     [(CHR 0x5C # ''.pdf$'', ''scriptA''), (''draft'', ''convert.sh'')] \<and>
   map (\<lambda>(p, h). (p, script h))
     (handlers (fold (\<lambda>(p, h). add_handler p h)
        [(''draft'', handler0 PyNone 0\<lparr>script := ''other.sh''\<rparr>), (''draft'', handler0 PyNone 0)]
        (observer0\<lparr>handlers := routing_rules 0 0\<rparr>))) =
     [(CHR 0x5C # ''.pdf$'', ''scriptA''), (''draft'', ''convert.sh'')] \<and>
   map (\<lambda>(p, h). (p, script h))
     (projr (fst (read_handlers (env_of (\<lambda>n. 0) search_all run_ok (\<lambda>n. None))
        (Some (routing_config @
           [\<lparr>cfg_pattern = ''draft'', cfg_actions = [''UPDATE''], cfg_script = ''scriptC''\<rparr>]))
        None world0))) =
     [(CHR 0x5C # ''.pdf$'', ''scriptA''), (''draft'', ''scriptC'')] \<and>
   map_of
     (projr (fst (read_handlers (env_of (\<lambda>n. 0) search_all run_ok (\<lambda>n. None))
        (Some (routing_config @
           [\<lparr>cfg_pattern = ''draft'', cfg_actions = [''UPDATE''], cfg_script = ''scriptC''\<rparr>]))
        None world0))) ''draft'' =
     Some \<lparr>actions = [Enum UPDATE], log_textbox = None, last_file = PyNone, last_update = 0,
            script = ''scriptC''\<rparr>"
  using registry_pattern_unique
    [where ob = "observer0\<lparr>handlers := routing_rules 0 0\<rparr>" and pattern = "''draft''"
       and handler = "handler0 PyNone 0"
       and regs = "[(''draft'', handler0 PyNone 0\<lparr>script := ''other.sh''\<rparr>),
                    (''draft'', handler0 PyNone 0)]"
       and pre = "[(''draft'', handler0 PyNone 0\<lparr>script := ''other.sh''\<rparr>)]"
       and post = "[]" and q = "''figure''"
       and e = "env_of (\<lambda>n. 0) search_all run_ok (\<lambda>n. None)"
       and conf = "Some (routing_config @
           [\<lparr>cfg_pattern = ''draft'', cfg_actions = [''UPDATE''], cfg_script = ''scriptC''\<rparr>])"
       and cfg = "routing_config @
           [\<lparr>cfg_pattern = ''draft'', cfg_actions = [''UPDATE''], cfg_script = ''scriptC''\<rparr>]"
       and cfg_pre = routing_config
       and d = "\<lparr>cfg_pattern = ''draft'', cfg_actions = [''UPDATE''], cfg_script = ''scriptC''\<rparr>"
       and cfg_post = "[]"
       and tb = None and w = world0
       and hs = "projr (fst (read_handlers (env_of (\<lambda>n. 0) search_all run_ok (\<lambda>n. None))
        (Some (routing_config @
           [\<lparr>cfg_pattern = ''draft'', cfg_actions = [''UPDATE''], cfg_script = ''scriptC''\<rparr>]))
        None world0))"]
  by (simp add: add_handler_def observer0_def routing_rules_def handler0_def
      read_handlers_def routing_config_def Action_by_name_def ChangeHandler_init_def
      time_time_def env_of_def world0_def)

end
